theory Spec2Isabelle
  imports Complex_Main "HOL-Library.AList"
begin

section \<open>Conventions of the embedding\<close>

text \<open>
  The development embeds the stream pipeline of the trading platform: the tick-to-bar
  aggregator and the equity monitor of \<^verbatim>\<open>equity_stream_manager.py\<close>, the stream
  manager of the same module, the rule engine of \<^verbatim>\<open>monitoring_engine.py\<close> and the
  lifecycle manager of \<^verbatim>\<open>improved_account_flow.py\<close>.

  \<^item> A point in time (\<^verbatim>\<open>datetime\<close> in UTC, \<^verbatim>\<open>timestamptz\<close>) is an \<open>int\<close>: the
    microseconds since the epoch, which is the resolution of a Python \<^verbatim>\<open>datetime\<close>.
  \<^item> A \<^verbatim>\<open>numeric\<close> column holds any \<open>real\<close>. A Python \<^verbatim>\<open>float\<close> and a
    \<^verbatim>\<open>float8\<close> value is a \<open>real\<close> that is a binary64 number; every conversion to
    \<^verbatim>\<open>float\<close> and every float operation of the source rounds to the nearest binary64
    number (\<open>round_double\<close> below). Comparisons, negation and \<^verbatim>\<open>abs\<close> are exact.
  \<^item> A table of the relational store is the list of its rows; a query is a function of it.
  \<^item> \<^verbatim>\<open>execute_query\<close> (\<^verbatim>\<open>repositories/db.py\<close>) catches every database error,
    prints it and returns no rows: a failing statement is a statement without effect.
    Where a function writes, it takes for each statement a flag telling whether the
    statement was executed.
\<close>

type_synonym time = int

definition minute :: int where
  "minute = 60000000"

definition seconds :: "int \<Rightarrow> int" where
  "seconds n = n * 1000000"

section \<open>Double precision\<close>

text \<open>
  The binary64 numbers are the reals \<open>m * 2 ^ e\<close> with \<open>\<bar>m\<bar> < 2 ^ 53\<close> and
  \<open>- 1074 \<le> e\<close>. \<open>binade n a\<close> is the exponent of the power of two at or below
  \<open>a\<close>, found in at most \<open>n\<close> halvings or doublings; \<open>round_double\<close> rounds to
  the nearest binary64 number, a tie to the one with even significand, as IEEE 754
  arithmetic and Python's \<^verbatim>\<open>float\<close> do. Below the normal range the spacing stays
  \<open>2 ^ - 1074\<close>. Overflow to infinity, which begins at \<open>2 ^ 1024\<close>, is not
  modelled: the equities, balances and percentages of the store are far below it.
\<close>

definition pow2 :: "int \<Rightarrow> real" where
  "pow2 e = (if 0 \<le> e then 2 ^ nat e else 1 / 2 ^ nat (- e))"

fun binade :: "nat \<Rightarrow> real \<Rightarrow> int" where
  "binade 0 a = 0"
| "binade (Suc n) a =
     (if 2 \<le> a then binade n (a / 2) + 1
      else if a < 1 then binade n (a * 2) - 1
      else 0)"

definition round_half_even :: "real \<Rightarrow> int" where
  "round_half_even q =
     (let f = \<lfloor>q\<rfloor>; r = q - of_int f
      in if r < 1 / 2 then f
         else if 1 / 2 < r then f + 1
         else if even f then f else f + 1)"

definition round_double :: "real \<Rightarrow> real" where
  "round_double x =
     (if x = 0 then 0
      else (let a = \<bar>x\<bar>;
                e = max (binade 1100 a) (- 1022) - 52
            in sgn x * of_int (round_half_even (a / pow2 e)) * pow2 e))"

text \<open>Float subtraction and division of two floats: the exact result, rounded.\<close>

definition fsub :: "real \<Rightarrow> real \<Rightarrow> real" where
  "fsub x y = round_double (x - y)"

definition fdiv :: "real \<Rightarrow> real \<Rightarrow> real" where
  "fdiv x y = round_double (x / y)"

section \<open>OHLC bars and their table\<close>

text \<open>
  A bar, as the aggregator builds it (\<^verbatim>\<open>{'metaapi_account_id', 'bar_time', 'open',
  'high', 'low', 'close'}\<close>) and as a row of \<^verbatim>\<open>equity_ohlc_1min\<close>.
\<close>

record ohlc_bar =
  bar_metaapi_account_id :: string
  bar_time :: time
  bar_open :: real
  bar_high :: real
  bar_low :: real
  bar_close :: real

definition bar_key :: "ohlc_bar \<Rightarrow> string \<times> time" where
  "bar_key b = (bar_metaapi_account_id b, bar_time b)"

text \<open>
  The statement of \<^verbatim>\<open>OHLCAggregator._persist_bar\<close>:
  \<^verbatim>\<open>
  INSERT INTO equity_ohlc_1min (metaapi_account_id, bar_time, open, high, low, close)
  VALUES (...)
  ON CONFLICT (metaapi_account_id, bar_time) DO UPDATE SET
      high = GREATEST(equity_ohlc_1min.high, EXCLUDED.high),
      low = LEAST(equity_ohlc_1min.low, EXCLUDED.low),
      close = EXCLUDED.close
  \<close>
  The conflict target is the key of the table, so at most one row conflicts: the row
  found first is the one updated, and a bar without a conflicting row is appended.
\<close>

definition widen :: "ohlc_bar \<Rightarrow> ohlc_bar \<Rightarrow> ohlc_bar" where
  "widen r b = r\<lparr>bar_high := max (bar_high r) (bar_high b),
                 bar_low := min (bar_low r) (bar_low b),
                 bar_close := bar_close b\<rparr>"

fun upsert_bar :: "ohlc_bar \<Rightarrow> ohlc_bar list \<Rightarrow> ohlc_bar list" where
  "upsert_bar b [] = [b]"
| "upsert_bar b (r # rs) =
     (if bar_key r = bar_key b then widen r b # rs else r # upsert_bar b rs)"

text \<open>
  \<^verbatim>\<open>_persist_bar\<close> runs the statement and then \<^verbatim>\<open>_update_account_current_profit\<close>,
  which writes the \<^verbatim>\<open>current_profit\<close> column of \<^verbatim>\<open>accounts\<close> and leaves
  \<^verbatim>\<open>equity_ohlc_1min\<close> alone. A failure is logged and the table is as before.
\<close>

definition persist_bar :: "bool \<Rightarrow> ohlc_bar list \<Rightarrow> ohlc_bar \<Rightarrow> ohlc_bar list" where
  "persist_bar executed tbl bar = (if executed then upsert_bar bar tbl else tbl)"

definition stored_bar :: "ohlc_bar list \<Rightarrow> string \<times> time \<Rightarrow> ohlc_bar option" where
  "stored_bar tbl k = find (\<lambda>r. bar_key r = k) tbl"

section \<open>Equity ticks and the flatness check\<close>

record equity_tick =
  tick_ts :: time
  tick_metaapi_account_id :: string
  tick_equity :: real
  tick_balance :: real

text \<open>
  The query of \<^verbatim>\<open>_is_account_flat\<close>:
  \<^verbatim>\<open>
  SELECT equity::float8, balance::float8 FROM equity_balance_ticks
  WHERE metaapi_account_id = %s AND ts > NOW() - INTERVAL '60 seconds'
  ORDER BY ts DESC LIMIT 1
  \<close>
  \<open>recent_ticks\<close> is the \<^verbatim>\<open>WHERE\<close> clause, \<open>latest_tick\<close> is
  \<^verbatim>\<open>ORDER BY ts DESC LIMIT 1\<close>: a row of greatest \<open>ts\<close> (among rows of equal
  \<open>ts\<close> the store may return any; the model returns the first of them).
\<close>

definition recent_ticks :: "time \<Rightarrow> string \<Rightarrow> equity_tick list \<Rightarrow> equity_tick list" where
  "recent_ticks now a tbl =
     filter (\<lambda>r. tick_metaapi_account_id r = a \<and> tick_ts r > now - seconds 60) tbl"

fun latest_tick :: "equity_tick list \<Rightarrow> equity_tick option" where
  "latest_tick [] = None"
| "latest_tick (r # rs) =
     (case latest_tick rs of
        None \<Rightarrow> Some r
      | Some r' \<Rightarrow> if tick_ts r < tick_ts r' then Some r' else Some r)"

text \<open>
  The query casts both columns to \<^verbatim>\<open>float8\<close>; the function subtracts the two
  floats and compares the absolute value with the float literal \<^verbatim>\<open>0.01\<close>.
\<close>

definition is_account_flat :: "time \<Rightarrow> equity_tick list \<Rightarrow> string \<Rightarrow> bool" where
  "is_account_flat now ticks metaapi_account_id =
     (case latest_tick (recent_ticks now metaapi_account_id ticks) of
        None \<Rightarrow> False
      | Some row \<Rightarrow>
          (let equity = round_double (tick_equity row);
               balance = round_double (tick_balance row)
           in \<bar>fsub equity balance\<bar> < round_double 0.01))"

section \<open>Trading periods\<close>

record trading_period =
  trading_period_id :: int
  tp_account_id :: int
  tp_metaapi_account_id :: string
  period_type :: string
  start_time :: time
  end_time :: "time option"
  tp_status :: string
  end_reason :: "string option"

text \<open>
  \<^verbatim>\<open>SELECT start_time FROM trading_periods WHERE metaapi_account_id = %s
  AND end_time IS NULL ORDER BY start_time DESC LIMIT 1\<close>: the greatest start time of
  an open period of the account.
\<close>

definition open_period_start :: "trading_period list \<Rightarrow> string \<Rightarrow> time option" where
  "open_period_start periods a =
     (case filter (\<lambda>p. tp_metaapi_account_id p = a \<and> end_time p = None) periods of
        [] \<Rightarrow> None
      | p # ps \<Rightarrow> Some (fold max (map start_time ps) (start_time p)))"

section \<open>Equity monitor\<close>

text \<open>The dataclass \<^verbatim>\<open>AccountMetrics\<close> of \<^verbatim>\<open>equity_stream_manager.py\<close>.\<close>

record account_metrics =
  m_metaapi_account_id :: string
  period_start :: time
  first_equity :: real
  current_equity :: real
  peak_equity :: real
  trough_equity :: real
  current_gain_pct :: real
  peak_gain_pct :: real
  trough_gain_pct :: real
  current_drawdown_pct :: real
  last_updated :: time

text \<open>
  The monitor holds the dictionary \<^verbatim>\<open>_metrics\<close>; \<open>metrics_cache\<close> is the table
  \<^verbatim>\<open>account_metrics_cache\<close>, keyed by the account id, that \<^verbatim>\<open>_persist_metrics\<close>
  writes.
\<close>

record equity_monitor =
  metrics :: "string \<rightharpoonup> account_metrics"
  metrics_cache :: "string \<rightharpoonup> account_metrics"

definition new_metrics :: "string \<Rightarrow> time \<Rightarrow> real \<Rightarrow> time \<Rightarrow> account_metrics" where
  "new_metrics a pstart equity now =
     \<lparr>m_metaapi_account_id = a, period_start = pstart, first_equity = equity,
      current_equity = equity, peak_equity = equity, trough_equity = equity,
      current_gain_pct = 0, peak_gain_pct = 0, trough_gain_pct = 0,
      current_drawdown_pct = 0, last_updated = now\<rparr>"

text \<open>
  The body of \<^verbatim>\<open>EquityMonitor.process_tick\<close> of \<^verbatim>\<open>equity_stream_manager.py\<close>
  after the lookup of the account's metrics, statement by statement; \<open>equity\<close> is
  the float it is called with.
\<close>

definition update_metrics :: "time \<Rightarrow> real \<Rightarrow> account_metrics \<Rightarrow> account_metrics" where
  "update_metrics now equity m0 =
     (let m1 = m0\<lparr>current_equity := equity\<rparr>;
          m2 = (if first_equity m1 > 0
                then m1\<lparr>current_gain_pct :=
                          fdiv (fsub equity (first_equity m1)) (first_equity m1)\<rparr>
                else m1\<lparr>current_gain_pct := 0\<rparr>);
          m3 = (if equity > peak_equity m2
                then m2\<lparr>peak_equity := equity, peak_gain_pct := current_gain_pct m2\<rparr>
                else m2);
          m4 = (if equity < trough_equity m3
                then m3\<lparr>trough_equity := equity, trough_gain_pct := current_gain_pct m3\<rparr>
                else m3);
          m5 = (if current_gain_pct m4 < 0
                then m4\<lparr>current_drawdown_pct := \<bar>current_gain_pct m4\<bar>\<rparr>
                else m4\<lparr>current_drawdown_pct := 0\<rparr>)
      in m5\<lparr>last_updated := now\<rparr>)"

text \<open>
  \<^verbatim>\<open>_persist_metrics\<close>: an insert that on a conflict overwrites every column but
  the key, \<^verbatim>\<open>period_start\<close> and \<^verbatim>\<open>first_equity\<close>.
\<close>

definition persist_metrics ::
  "bool \<Rightarrow> account_metrics \<Rightarrow> (string \<rightharpoonup> account_metrics) \<Rightarrow> (string \<rightharpoonup> account_metrics)" where
  "persist_metrics executed m cache =
     (if \<not> executed then cache
      else case cache (m_metaapi_account_id m) of
        None \<Rightarrow> cache(m_metaapi_account_id m \<mapsto> m)
      | Some row \<Rightarrow> cache(m_metaapi_account_id m \<mapsto>
          m\<lparr>period_start := period_start row, first_equity := first_equity row\<rparr>))"

text \<open>
  \<^verbatim>\<open>EquityMonitor.process_tick\<close>. The listener calls it with
  \<^verbatim>\<open>float(equity)\<close>, so the reported value is rounded first. An account without
  metrics is initialised from this tick when it has an open trading period, and the
  tick is dropped when it has none.
\<close>

definition monitor_process_tick ::
  "bool \<Rightarrow> time \<Rightarrow> trading_period list \<Rightarrow> string \<Rightarrow> real \<Rightarrow> equity_monitor \<Rightarrow> equity_monitor" where
  "monitor_process_tick executed now periods a reported mon =
     (let equity = round_double reported;
          initialised =
        (case metrics mon a of
           Some m \<Rightarrow> Some m
         | None \<Rightarrow>
             (case open_period_start periods a of
                None \<Rightarrow> None
              | Some pstart \<Rightarrow> Some (new_metrics a pstart equity now)))
      in case initialised of
           None \<Rightarrow> mon
         | Some m \<Rightarrow>
             (let m' = update_metrics now equity m
              in mon\<lparr>metrics := (metrics mon)(a \<mapsto> m'),
                     metrics_cache := persist_metrics executed m' (metrics_cache mon)\<rparr>))"

text \<open>Feeding the ticks of one account in order; the clock is read once per tick.\<close>

fun monitor_feed ::
  "trading_period list \<Rightarrow> string \<Rightarrow> (time \<times> real) list \<Rightarrow> equity_monitor \<Rightarrow> equity_monitor" where
  "monitor_feed periods a [] mon = mon"
| "monitor_feed periods a ((now, equity) # ticks) mon =
     monitor_feed periods a ticks (monitor_process_tick True now periods a equity mon)"

definition empty_monitor :: equity_monitor where
  "empty_monitor = \<lparr>metrics = Map.empty, metrics_cache = Map.empty\<rparr>"

subsection \<open>The monitor of \<^verbatim>\<open>equity_monitor.py\<close>\<close>

text \<open>
  The module \<^verbatim>\<open>equity_monitor.py\<close> holds a second class \<^verbatim>\<open>EquityMonitor\<close>
  with the same metrics. Its \<^verbatim>\<open>process_tick\<close> divides by the first equity without
  a test, which raises \<^verbatim>\<open>ZeroDivisionError\<close> when the first equity is 0, after the
  current equity has been stored. For an account without metrics it calls
  \<^verbatim>\<open>initialize_account\<close> while holding the monitor's lock: that raises
  \<^verbatim>\<open>ValueError\<close> when the account has no open period or no tick since the period
  start, and otherwise waits for the lock it holds and does not return.
\<close>

datatype monitor_error = ValueError | ZeroDivision | Deadlock

definition legacy_update_metrics ::
  "time \<Rightarrow> real \<Rightarrow> account_metrics \<Rightarrow> monitor_error option \<times> account_metrics" where
  "legacy_update_metrics now equity m0 =
     (let m1 = m0\<lparr>current_equity := equity\<rparr>
      in if first_equity m1 = 0 then (Some ZeroDivision, m1)
         else
           (let m2 = m1\<lparr>current_gain_pct :=
                          fdiv (fsub equity (first_equity m1)) (first_equity m1)\<rparr>;
                m3 = (if equity > peak_equity m2
                      then m2\<lparr>peak_equity := equity, peak_gain_pct := current_gain_pct m2\<rparr>
                      else m2);
                m4 = (if equity < trough_equity m3
                      then m3\<lparr>trough_equity := equity,
                              trough_gain_pct := current_gain_pct m3\<rparr>
                      else m3);
                m5 = (if current_gain_pct m4 < 0
                      then m4\<lparr>current_drawdown_pct := \<bar>current_gain_pct m4\<bar>\<rparr>
                      else m4\<lparr>current_drawdown_pct := 0\<rparr>)
            in (None, m5\<lparr>last_updated := now\<rparr>)))"

definition legacy_process_tick ::
  "bool \<Rightarrow> time \<Rightarrow> trading_period list \<Rightarrow> equity_tick list \<Rightarrow> string \<Rightarrow> real
     \<Rightarrow> equity_monitor \<Rightarrow> monitor_error option \<times> equity_monitor" where
  "legacy_process_tick executed now periods ticks a reported mon =
     (let equity = round_double reported
      in case metrics mon a of
           None \<Rightarrow>
             (case open_period_start periods a of
                None \<Rightarrow> (Some ValueError, mon)
              | Some pstart \<Rightarrow>
                  if filter (\<lambda>r. tick_metaapi_account_id r = a \<and> pstart \<le> tick_ts r) ticks = []
                  then (Some ValueError, mon)
                  else (Some Deadlock, mon))
         | Some m \<Rightarrow>
             (case legacy_update_metrics now equity m of
                (Some err, m') \<Rightarrow> (Some err, mon\<lparr>metrics := (metrics mon)(a \<mapsto> m')\<rparr>)
              | (None, m') \<Rightarrow>
                  (None, mon\<lparr>metrics := (metrics mon)(a \<mapsto> m'),
                              metrics_cache := persist_metrics executed m' (metrics_cache mon)\<rparr>)))"

section \<open>Stream manager\<close>

text \<open>
  \<^verbatim>\<open>EquityStreamManagerAsync\<close> keeps \<^verbatim>\<open>_streams\<close>, a dictionary from the account id
  to \<^verbatim>\<open>(task, stop_event, listener_id)\<close>. The task objects live in the event loop
  whether or not the dictionary still refers to them, so the model keeps every task
  created so far in a list and lets the dictionary refer to a task by its position.
  \<open>stop_event\<close> is the \<^verbatim>\<open>asyncio.Event\<close> handed to the task's \<^verbatim>\<open>_run\<close>;
  \<open>task_done\<close> is \<^verbatim>\<open>task.done()\<close>. \<open>pending_stops\<close> holds the calls of
  \<^verbatim>\<open>stop_equity_stream\<close> that wait for their task, each with the task it waits for.
\<close>

record stream_task =
  task_account :: string
  stop_event :: bool
  task_done :: bool

record manager =
  tasks :: "stream_task list"
  streams :: "string \<rightharpoonup> nat \<times> string option"
  pending_stops :: "(string \<times> nat) list"

definition new_manager :: manager where
  "new_manager = \<lparr>tasks = [], streams = Map.empty, pending_stops = []\<rparr>"

definition live :: "manager \<Rightarrow> nat \<Rightarrow> bool" where
  "live mgr t \<longleftrightarrow> t < length (tasks mgr) \<and> \<not> task_done (tasks mgr ! t)"

definition live_tasks :: "manager \<Rightarrow> string \<Rightarrow> nat list" where
  "live_tasks mgr a =
     filter (\<lambda>t. task_account (tasks mgr ! t) = a \<and> \<not> task_done (tasks mgr ! t))
       [0 ..< length (tasks mgr)]"

text \<open>
  \<^verbatim>\<open>start_equity_stream\<close>, all of it under the manager's lock. The call of
  \<^verbatim>\<open>monitor.initialize_account\<close> changes the monitor only and its failure is logged.
\<close>

definition start_equity_stream :: "string \<Rightarrow> manager \<Rightarrow> bool \<times> manager" where
  "start_equity_stream account_id mgr =
     (let running = (case streams mgr account_id of
                       None \<Rightarrow> False
                     | Some (t, _) \<Rightarrow> live mgr t)
      in if running then (False, mgr)
         else (True,
               mgr\<lparr>tasks := tasks mgr @
                      [\<lparr>task_account = account_id, stop_event = False, task_done = False\<rparr>],
                    streams := (streams mgr)(account_id \<mapsto> (length (tasks mgr), None))\<rparr>))"

text \<open>
  \<^verbatim>\<open>stop_equity_stream\<close> takes the lock twice. \<open>stop_begin\<close> is the first section:
  unknown account, or the stop event is set and the call goes on to wait for the task.
  \<open>stop_end\<close> is the \<^verbatim>\<open>finally\<close> block, which runs once the awaited task is done
  and removes whatever entry the dictionary then has for the account.
\<close>

definition stop_begin :: "string \<Rightarrow> manager \<Rightarrow> bool \<times> manager" where
  "stop_begin account_id mgr =
     (case streams mgr account_id of
        None \<Rightarrow> (False, mgr)
      | Some (t, _) \<Rightarrow>
          (True, mgr\<lparr>tasks := (tasks mgr)[t := (tasks mgr ! t)\<lparr>stop_event := True\<rparr>],
                     pending_stops := pending_stops mgr @ [(account_id, t)]\<rparr>))"

text \<open>
  A task ends when its loop sees the stop event, or when the waiting stop call cancels
  it after ten seconds; both happen only after the stop event was set.
\<close>

definition task_finishes :: "nat \<Rightarrow> manager \<Rightarrow> manager" where
  "task_finishes t mgr =
     (if t < length (tasks mgr) \<and> stop_event (tasks mgr ! t)
      then mgr\<lparr>tasks := (tasks mgr)[t := (tasks mgr ! t)\<lparr>task_done := True\<rparr>]\<rparr>
      else mgr)"

definition stop_end :: "string \<Rightarrow> nat \<Rightarrow> manager \<Rightarrow> manager" where
  "stop_end account_id t mgr =
     (if (account_id, t) \<in> set (pending_stops mgr) \<and> \<not> live mgr t
      then mgr\<lparr>streams := (streams mgr)(account_id := None),
               pending_stops := remove1 (account_id, t) (pending_stops mgr)\<rparr>
      else mgr)"

text \<open>A call of \<^verbatim>\<open>stop_equity_stream\<close> that nothing else interleaves with.\<close>

definition stop_equity_stream :: "string \<Rightarrow> manager \<Rightarrow> bool \<times> manager" where
  "stop_equity_stream account_id mgr =
     (case streams mgr account_id of
        None \<Rightarrow> (False, mgr)
      | Some (t, _) \<Rightarrow>
          (True, stop_end account_id t (task_finishes t (snd (stop_begin account_id mgr)))))"

text \<open>
  The steps the event loop can take on the manager, one locked section or one task
  ending at a time, and a schedule of them.
\<close>

datatype manager_step =
  Start string | StopBegin string | TaskFinishes nat | StopEnd string nat

fun take_step :: "manager_step \<Rightarrow> manager \<Rightarrow> manager" where
  "take_step (Start a) mgr = snd (start_equity_stream a mgr)"
| "take_step (StopBegin a) mgr = snd (stop_begin a mgr)"
| "take_step (TaskFinishes t) mgr = task_finishes t mgr"
| "take_step (StopEnd a t) mgr = stop_end a t mgr"

definition manager_run :: "manager_step list \<Rightarrow> manager \<Rightarrow> manager" where
  "manager_run steps mgr = fold take_step steps mgr"

section \<open>The relational store\<close>

text \<open>The columns of \<^verbatim>\<open>accounts\<close> and \<^verbatim>\<open>plan_specifications\<close> that the core reads or writes.\<close>

record account_row =
  acc_id :: int
  acc_metaapi_account_id :: "string option"
  acc_status :: string
  acc_phase :: "string option"
  acc_plan_id :: int
  acc_is_enabled :: bool
  acc_in_review :: bool
  acc_passed_at :: "time option"
  acc_closed_at :: "time option"
  acc_updated_at :: "time option"

record plan_specification =
  ps_plan_id :: int
  ps_name :: string
  ps_phase_number :: "int option"
  ps_phase_type :: string
  ps_profit_target_pct :: real
  ps_max_drawdown_pct :: real
  ps_daily_drawdown_pct :: real
  ps_min_trading_days :: int
  ps_profit_split_pct :: real

text \<open>A row of \<^verbatim>\<open>account_events\<close>; the payload is the dictionary the handlers serialise.\<close>

record event_payload =
  pl_reason :: string
  pl_period_type :: string
  pl_trading_period_id :: int
  pl_plan_name :: string
  pl_limit_pct :: real

record account_event =
  ev_account_id :: int
  ev_event_type :: string
  ev_event_status :: string
  ev_actor_type :: string
  ev_payload :: event_payload

record store =
  accounts :: "account_row list"
  trading_periods :: "trading_period list"
  plan_specifications :: "plan_specification list"
  equity_ohlc_1min :: "ohlc_bar list"
  equity_balance_ticks :: "equity_tick list"
  account_events :: "account_event list"

section \<open>Rule engine\<close>

text \<open>A row of the result of \<^verbatim>\<open>get_active_accounts\<close>, with the aliases of the query.\<close>

record active_account =
  aa_account_id :: int
  aa_metaapi_account_id :: string
  aa_status :: string
  aa_phase :: "string option"
  aa_plan_id :: int
  aa_trading_period_id :: int
  aa_period_type :: string
  aa_start_time :: time
  aa_plan_name :: string
  aa_phase_type :: string
  aa_profit_target_pct :: real
  aa_max_drawdown_pct :: real
  aa_daily_drawdown_pct :: real
  aa_min_trading_days :: int
  aa_profit_split_pct :: real



text \<open>The bars of the account at or after the period start, the \<^verbatim>\<open>WHERE\<close> clause of
  the three bar queries of the engine.\<close>

definition period_bars :: "ohlc_bar list \<Rightarrow> string \<Rightarrow> time \<Rightarrow> ohlc_bar list" where
  "period_bars tbl a pstart =
     filter (\<lambda>r. bar_metaapi_account_id r = a \<and> pstart \<le> bar_time r) tbl"

text \<open>\<^verbatim>\<open>ORDER BY bar_time ASC LIMIT 1\<close> and \<^verbatim>\<open>ORDER BY bar_time DESC LIMIT 1\<close>.\<close>

fun earliest_bar :: "ohlc_bar list \<Rightarrow> ohlc_bar option" where
  "earliest_bar [] = None"
| "earliest_bar (r # rs) =
     (case earliest_bar rs of
        None \<Rightarrow> Some r
      | Some r' \<Rightarrow> if bar_time r' < bar_time r then Some r' else Some r)"

fun latest_bar :: "ohlc_bar list \<Rightarrow> ohlc_bar option" where
  "latest_bar [] = None"
| "latest_bar (r # rs) =
     (case latest_bar rs of
        None \<Rightarrow> Some r
      | Some r' \<Rightarrow> if bar_time r < bar_time r' then Some r' else Some r)"

text \<open>The three queries hand their numeric columns to \<^verbatim>\<open>float\<close>.\<close>

definition get_period_baseline :: "ohlc_bar list \<Rightarrow> string \<Rightarrow> time \<Rightarrow> real option" where
  "get_period_baseline tbl metaapi_account_id pstart =
     map_option (\<lambda>r. round_double (bar_open r))
       (earliest_bar (period_bars tbl metaapi_account_id pstart))"

definition get_latest_ohlc :: "ohlc_bar list \<Rightarrow> string \<Rightarrow> time \<Rightarrow> ohlc_bar option" where
  "get_latest_ohlc tbl metaapi_account_id pstart =
     map_option (\<lambda>r. r\<lparr>bar_open := round_double (bar_open r),
                         bar_high := round_double (bar_high r),
                         bar_low := round_double (bar_low r),
                         bar_close := round_double (bar_close r)\<rparr>)
       (latest_bar (period_bars tbl metaapi_account_id pstart))"

text \<open>\<^verbatim>\<open>SELECT MAX(high) AS period_high, MIN(low) AS period_low\<close>: null on no rows.\<close>

definition get_period_high_low :: "ohlc_bar list \<Rightarrow> string \<Rightarrow> time \<Rightarrow> (real \<times> real) option" where
  "get_period_high_low tbl metaapi_account_id pstart =
     (case period_bars tbl metaapi_account_id pstart of
        [] \<Rightarrow> None
      | r # rs \<Rightarrow> Some (round_double (fold max (map bar_high rs) (bar_high r)),
                        round_double (fold min (map bar_low rs) (bar_low r))))"

text \<open>
  \<^verbatim>\<open>check_account\<close>. Python raises \<^verbatim>\<open>ZeroDivisionError\<close> on a float division by
  zero, so the three divisions by the baseline go through \<open>py_div\<close>, which rounds the
  quotient as \<open>fdiv\<close> does. The thresholds
  \<open>profit_target_pct\<close> and \<open>max_drawdown_pct\<close> are the function's own variables: the
  plan's figures, which the store keeps in percent (10.00 for 10%), divided by 100.
  \<^verbatim>\<open>if not baseline\<close> is true of \<^verbatim>\<open>None\<close> and of \<^verbatim>\<open>0.0\<close>. The third
  division computes the gain of the latest close, which is only logged.
\<close>

datatype py_error = ZeroDivisionError

datatype decision = profit_target | drawdown_breach

definition py_div :: "real \<Rightarrow> real \<Rightarrow> py_error + real" where
  "py_div x y = (if y = 0 then Inl ZeroDivisionError else Inr (fdiv x y))"

definition decide :: "real \<Rightarrow> real \<Rightarrow> real \<Rightarrow> real \<Rightarrow> decision option" where
  "decide high_gain_pct low_gain_pct profit_target_pct max_drawdown_pct =
     (if high_gain_pct \<ge> profit_target_pct then Some profit_target
      else if low_gain_pct \<le> - max_drawdown_pct then Some drawdown_breach
      else None)"

definition check_account :: "ohlc_bar list \<Rightarrow> active_account \<Rightarrow> py_error + decision option" where
  "check_account tbl account =
     (let metaapi_account_id = aa_metaapi_account_id account;
          pstart = aa_start_time account;
          profit_target_pct = fdiv (round_double (aa_profit_target_pct account)) 100;
          max_drawdown_pct = fdiv (round_double (aa_max_drawdown_pct account)) 100
      in case get_period_baseline tbl metaapi_account_id pstart of
           None \<Rightarrow> Inr None
         | Some baseline \<Rightarrow>
             if baseline = 0 then Inr None
             else case get_period_high_low tbl metaapi_account_id pstart of
               None \<Rightarrow> Inr None
             | Some (period_high, period_low) \<Rightarrow>
                 (case py_div (fsub period_high baseline) baseline of
                    Inl err \<Rightarrow> Inl err
                  | Inr high_gain_pct \<Rightarrow>
                 (case py_div (fsub period_low baseline) baseline of
                    Inl err \<Rightarrow> Inl err
                  | Inr low_gain_pct \<Rightarrow>
                 (let current_close =
                        (case get_latest_ohlc tbl metaapi_account_id pstart of
                           Some latest \<Rightarrow> bar_close latest
                         | None \<Rightarrow> baseline)
                  in case py_div (fsub current_close baseline) baseline of
                       Inl err \<Rightarrow> Inl err
                     | Inr logged_gain_pct \<Rightarrow>
                         Inr (decide high_gain_pct low_gain_pct
                                profit_target_pct max_drawdown_pct)))))"


record world =
  db :: store
  mgr :: manager

definition update_accounts :: "bool \<Rightarrow> int \<Rightarrow> (account_row \<Rightarrow> account_row) \<Rightarrow> store \<Rightarrow> store" where
  "update_accounts executed account_id f s =
     (if executed
      then s\<lparr>accounts := map (\<lambda>a. if acc_id a = account_id then f a else a) (accounts s)\<rparr>
      else s)"









section \<open>Lifecycle manager\<close>

text \<open>
  \<^verbatim>\<open>ImprovedAccountLifecycleManager\<close> talks to the stream manager through the
  facade \<^verbatim>\<open>EquityStreamService\<close> of \<^verbatim>\<open>equity_stream_manager.py\<close>, whose
  \<^verbatim>\<open>start_stream\<close> and \<^verbatim>\<open>stop_stream\<close> hand back what the manager returns; the
  calls are taken to answer within the facade's timeouts.

  What a start request meets: the clock of each query, the ticks the stream's listener
  has written before each poll, the key that the \<^verbatim>\<open>INSERT\<close> of the trading period
  returns (none when the statement was not executed), and whether the status update
  was executed.
\<close>

record lifecycle_env =
  poll_now :: "nat \<Rightarrow> time"
  arrivals :: "nat \<Rightarrow> equity_tick list"
  flat_now :: time
  balance_now :: time
  period_inserted :: "int option"
  period_now :: time
  status_update_executed :: bool

definition has_equity_data :: "time \<Rightarrow> equity_tick list \<Rightarrow> string \<Rightarrow> bool" where
  "has_equity_data now ticks metaapi_account_id \<longleftrightarrow>
     recent_ticks now metaapi_account_id ticks \<noteq> []"

definition get_equity_balance :: "time \<Rightarrow> equity_tick list \<Rightarrow> string \<Rightarrow> real \<times> real" where
  "get_equity_balance now ticks metaapi_account_id =
     (case latest_tick (recent_ticks now metaapi_account_id ticks) of
        None \<Rightarrow> (0, 0)
      | Some row \<Rightarrow> (tick_equity row, tick_balance row))"

text \<open>
  \<^verbatim>\<open>for i in range(30): await asyncio.sleep(1); if self._has_equity_data(...): break\<close>
  with its \<^verbatim>\<open>else\<close> branch: \<open>wait_for_data env a i n s\<close> runs the polls \<open>i\<close>,
  \<open>i + 1\<close>, ..., at most \<open>n\<close> of them, and tells whether one of them found data.
\<close>

fun wait_for_data :: "lifecycle_env \<Rightarrow> string \<Rightarrow> nat \<Rightarrow> nat \<Rightarrow> store \<Rightarrow> bool \<times> store" where
  "wait_for_data env a i 0 s = (False, s)"
| "wait_for_data env a i (Suc n) s =
     (let s' = s\<lparr>equity_balance_ticks := equity_balance_ticks s @ arrivals env i\<rparr>
      in if has_equity_data (poll_now env i) (equity_balance_ticks s') a then (True, s')
         else wait_for_data env a (Suc i) n s')"

definition create_trading_period :: "lifecycle_env \<Rightarrow> int \<Rightarrow> string \<Rightarrow> bool \<Rightarrow> store \<Rightarrow> int option \<times> store" where
  "create_trading_period env account_id metaapi_account_id is_funded s =
     (let ptype = (if is_funded then ''funded'' else ''phase_1'')
      in case period_inserted env of
           None \<Rightarrow> (None, s)
         | Some new_id \<Rightarrow>
             (Some new_id,
              s\<lparr>trading_periods := trading_periods s @
                   [\<lparr>trading_period_id = new_id, tp_account_id = account_id,
                     tp_metaapi_account_id = metaapi_account_id, period_type = ptype,
                     start_time = period_now env, end_time = None,
                     tp_status = ''active'', end_reason = None\<rparr>]\<rparr>))"

definition set_account_status :: "bool \<Rightarrow> int \<Rightarrow> string \<Rightarrow> string \<Rightarrow> store \<Rightarrow> store" where
  "set_account_status executed account_id status phase s =
     update_accounts executed account_id
       (\<lambda>a. a\<lparr>acc_status := status, acc_phase := Some phase\<rparr>) s"

text \<open>
  The dictionaries \<^verbatim>\<open>attempt_start_evaluation\<close> returns: the three failures with
  their messages (the third carries the equity and the balance it prints), or success
  with the key of the new period.
\<close>

datatype start_failure =
  FailedToStartStream
| CouldNotConnect
| HasOpenPositions real real

definition attempt_start_evaluation ::
  "lifecycle_env \<Rightarrow> int \<Rightarrow> string \<Rightarrow> world \<Rightarrow> (start_failure + int option) \<times> world" where
  "attempt_start_evaluation env account_id metaapi_account_id w =
     (let (stream_started, m1) = start_equity_stream metaapi_account_id (mgr w)
      in if \<not> stream_started then (Inl FailedToStartStream, w\<lparr>mgr := m1\<rparr>)
         else
           (let (found, s1) = wait_for_data env metaapi_account_id 0 30 (db w)
            in if \<not> found
               then (Inl CouldNotConnect,
                     \<lparr>db = s1, mgr = snd (stop_equity_stream metaapi_account_id m1)\<rparr>)
               else if \<not> is_account_flat (flat_now env) (equity_balance_ticks s1)
                         metaapi_account_id
               then
                 (let (equity, balance) =
                        get_equity_balance (balance_now env) (equity_balance_ticks s1)
                          metaapi_account_id
                  in (Inl (HasOpenPositions equity balance),
                      \<lparr>db = s1, mgr = snd (stop_equity_stream metaapi_account_id m1)\<rparr>))
               else
                 (let (period_id, s2) =
                        create_trading_period env account_id metaapi_account_id False s1;
                      s3 = set_account_status (status_update_executed env) account_id
                             ''active'' ''phase_1'' s2
                  in (Inr period_id, \<lparr>db = s3, mgr = m1\<rparr>))))"

text \<open>
  \<^verbatim>\<open>EquityStreamService.start_stream\<close> of \<^verbatim>\<open>equity_stream_service.py\<close>, the
  synchronising service: whatever the manager answers, the stream is tracked and the
  start counts as done (\<^verbatim>\<open>Stream already running ... Track it anyway\<close>).
\<close>

definition sync_start_stream :: "string \<Rightarrow> string set \<times> manager \<Rightarrow> bool \<times> string set \<times> manager" where
  "sync_start_stream metaapi_account_id st =
     (let (active_streams, m) = st;
          (result, m1) = start_equity_stream metaapi_account_id m
      in (True, insert metaapi_account_id active_streams, m1))"

section \<open>OHLC aggregator\<close>

text \<open>
  The dictionary \<^verbatim>\<open>_current_bars\<close> of \<^verbatim>\<open>OHLCAggregator\<close>, in the order of
  insertion. Its keys are the strings \<^verbatim>\<open>f"{metaapi_account_id}:{bar_time.isoformat()}"\<close>;
  the time part has a fixed width, so a key is the pair of account id and bar time.
\<close>

type_synonym bar_dict = "((string \<times> time) \<times> ohlc_bar) list"

text \<open>\<^verbatim>\<open>timestamp.replace(second=0, microsecond=0)\<close>.\<close>

definition floor_minute :: "time \<Rightarrow> time" where
  "floor_minute ts = ts - ts mod minute"

text \<open>
  \<^verbatim>\<open>OHLCAggregator.process_tick\<close>; \<open>now\<close> is the clock read after the update of
  the bucket. The second component of the result is the bar handed to
  \<^verbatim>\<open>_persist_bar\<close>, if the tick came a minute or more after the start of its bar;
  the bucket is then removed from the dictionary.
\<close>

definition ohlc_process_tick ::
  "time \<Rightarrow> string \<Rightarrow> real \<Rightarrow> time \<Rightarrow> bar_dict \<Rightarrow> bar_dict \<times> ohlc_bar option" where
  "ohlc_process_tick now metaapi_account_id equity timestamp current_bars =
     (let bt = floor_minute timestamp;
          key = (metaapi_account_id, bt);
          bars1 =
            (case map_of current_bars key of
               None \<Rightarrow>
                 AList.update key
                   \<lparr>bar_metaapi_account_id = metaapi_account_id, bar_time = bt,
                    bar_open = equity, bar_high = equity, bar_low = equity,
                    bar_close = equity\<rparr> current_bars
             | Some bar \<Rightarrow>
                 AList.update key
                   (bar\<lparr>bar_high := max (bar_high bar) equity,
                        bar_low := min (bar_low bar) equity,
                        bar_close := equity\<rparr>) current_bars)
      in if now - bt \<ge> minute
         then (AList.delete key bars1, map_of bars1 key)
         else (bars1, None))"

text \<open>
  \<^verbatim>\<open>_flush_completed_bars\<close>, the sweep that runs every 60 seconds: every bucket a
  minute old or older is handed to \<^verbatim>\<open>_persist_bar\<close>, in the order of the dictionary,
  and then removed.
\<close>

definition flush_completed_bars :: "time \<Rightarrow> bar_dict \<Rightarrow> bar_dict \<times> ohlc_bar list" where
  "flush_completed_bars now current_bars =
     (let keys_to_delete =
            map fst (filter (\<lambda>(key, bar). now - bar_time bar \<ge> minute) current_bars)
      in (fold AList.delete keys_to_delete current_bars,
          map snd (filter (\<lambda>(key, bar). now - bar_time bar \<ge> minute) current_bars)))"

text \<open>
  What happens to an aggregator: a tick (account, equity, timestamp, clock at the
  flush test) or a sweep (clock). \<open>agg_run\<close> returns the dictionary and the bars
  handed to \<^verbatim>\<open>_persist_bar\<close>, in order.
\<close>

datatype agg_event = Tick string real time time | Sweep time

fun agg_step :: "agg_event \<Rightarrow> bar_dict \<Rightarrow> bar_dict \<times> ohlc_bar list" where
  "agg_step (Tick a e ts now) bars =
     (case ohlc_process_tick now a e ts bars of
        (bars', None) \<Rightarrow> (bars', [])
      | (bars', Some b) \<Rightarrow> (bars', [b]))"
| "agg_step (Sweep now) bars = flush_completed_bars now bars"

fun agg_run :: "agg_event list \<Rightarrow> bar_dict \<Rightarrow> bar_dict \<times> ohlc_bar list" where
  "agg_run [] bars = (bars, [])"
| "agg_run (ev # evs) bars =
     (let (bars1, flushed1) = agg_step ev bars;
          (bars2, flushed2) = agg_run evs bars1
      in (bars2, flushed1 @ flushed2))"

text \<open>
  The window of minute \<open>M\<close> as the specification words it: the values of the account's
  ticks with a timestamp in \<open>[M, M + 60 s)\<close>, in the order they were processed, and the
  bar with \<open>open\<close> the first of them, \<open>high\<close> their maximum, \<open>low\<close> their
  minimum and \<open>close\<close> the last.
\<close>

fun window_values :: "string \<Rightarrow> time \<Rightarrow> agg_event list \<Rightarrow> real list" where
  "window_values a M [] = []"
| "window_values a M (Tick a' e ts now # evs) =
     (if a' = a \<and> M \<le> ts \<and> ts < M + minute then e # window_values a M evs
      else window_values a M evs)"
| "window_values a M (Sweep now # evs) = window_values a M evs"

definition window_bar :: "string \<Rightarrow> time \<Rightarrow> real list \<Rightarrow> ohlc_bar option" where
  "window_bar a M vs =
     (if vs = [] then None
      else Some \<lparr>bar_metaapi_account_id = a, bar_time = M, bar_open = hd vs,
                 bar_high = Max (set vs), bar_low = Min (set vs), bar_close = last vs\<rparr>)"

text \<open>
  The bars that an event flushes after the events \<open>prior\<close> on a new aggregator, and
  the claim that each of them is the bar of its whole window so far.
\<close>

definition flush_of :: "agg_event list \<Rightarrow> agg_event \<Rightarrow> ohlc_bar list" where
  "flush_of prior ev = snd (agg_step ev (fst (agg_run prior [])))"

definition flush_covers_window :: "agg_event list \<Rightarrow> agg_event \<Rightarrow> bool" where
  "flush_covers_window prior ev \<longleftrightarrow>
     (\<forall>b \<in> set (flush_of prior ev).
        Some b = window_bar (bar_metaapi_account_id b) (bar_time b)
                   (window_values (bar_metaapi_account_id b) (bar_time b) (prior @ [ev])))"

text \<open>
  The events since a bar of account \<open>a\<close> and minute \<open>M\<close> was last handed to the
  flush, all events if none was: \<open>segment\<close> follows the run and starts anew after each
  event that flushes such a bar.
\<close>

fun segment :: "string \<Rightarrow> time \<Rightarrow> agg_event list \<Rightarrow> bar_dict \<Rightarrow> agg_event list \<Rightarrow> agg_event list" where
  "segment a M [] bars acc = acc"
| "segment a M (ev # evs) bars acc =
     (let (bars1, flushed1) = agg_step ev bars
      in segment a M evs bars1
           (if list_ex (\<lambda>b. bar_key b = (a, M)) flushed1 then [] else acc @ [ev]))"

definition since_flush :: "string \<Rightarrow> time \<Rightarrow> agg_event list \<Rightarrow> agg_event list" where
  "since_flush a M prior = segment a M prior [] []"

text \<open>
  The dictionary has one entry per key, the bar of an entry carries the account and
  the bar time of its key, and bar times are whole minutes.
\<close>

definition well_keyed :: "bar_dict \<Rightarrow> bool" where
  "well_keyed bars \<longleftrightarrow>
     distinct (map fst bars)
     \<and> (\<forall>(k, b) \<in> set bars. bar_key b = k \<and> bar_time b mod minute = 0)"

text \<open>The bucket of a tick after the tick has been folded in.\<close>

definition tick_bucket :: "string \<Rightarrow> real \<Rightarrow> time \<Rightarrow> bar_dict \<Rightarrow> ohlc_bar" where
  "tick_bucket a e ts bars =
     (case map_of bars (a, floor_minute ts) of
        None \<Rightarrow> \<lparr>bar_metaapi_account_id = a, bar_time = floor_minute ts, bar_open = e,
                  bar_high = e, bar_low = e, bar_close = e\<rparr>
      | Some bar \<Rightarrow> bar\<lparr>bar_high := max (bar_high bar) e, bar_low := min (bar_low bar) e,
                         bar_close := e\<rparr>)"

section \<open>Stream task loop\<close>

text \<open>
  The local state of \<^verbatim>\<open>EquityStreamManagerAsync._run\<close>: the counter
  \<^verbatim>\<open>consecutive_failures\<close>, \<^verbatim>\<open>backoff\<close> and \<^verbatim>\<open>listener_id\<close>;
  \<open>sdk_generation\<close> counts the calls of \<^verbatim>\<open>_recreate_sdk\<close> and so names the
  connection object \<^verbatim>\<open>self.api\<close> in use.
\<close>

record run_state =
  consecutive_failures :: nat
  backoff :: real
  listener_id :: "string option"
  sdk_generation :: nat

text \<open>
  What one pass through the outer \<^verbatim>\<open>while\<close> loop meets: whether building the
  connection raises, how \<^verbatim>\<open>add_equity_balance_listener\<close> ends within its 20 seconds,
  whether the connection event arrives within 30 seconds, how the watchdog loop ends,
  and the value of \<^verbatim>\<open>random.random()\<close>.
\<close>

datatype attach_outcome = Attached string | AttachTimeout | AttachRaises

datatype watch_outcome = Stale | Disconnected | StopSet

record iteration =
  connection_raises :: bool
  attach_result :: attach_outcome
  connected_in_time :: bool
  watchdog :: watch_outcome
  jitter :: real

text \<open>
  What the loop does, in order: it builds a connection (numbered), it calls
  \<^verbatim>\<open>add_equity_balance_listener\<close> (with the backoff and the counter that the log
  line before the call prints, and the connection used), it counts a failure (the new
  value of the counter), it sleeps.
\<close>

datatype run_event =
  Recreated nat
| Attaching real nat nat
| Failed nat
| Slept real

definition initial_run_state :: run_state where
  "initial_run_state =
     \<lparr>consecutive_failures = 0, backoff = 2, listener_id = None, sdk_generation = 0\<rparr>"

definition detach_listener :: "run_state \<Rightarrow> run_state" where
  "detach_listener s = s\<lparr>listener_id := None\<rparr>"

text \<open>\<^verbatim>\<open>consecutive_failures += 1\<close>, and the two \<^verbatim>\<open>except\<close> branches that
  count the failure, sleep for the jittered backoff and double the backoff up to 60.\<close>

definition count_failure :: "run_state \<Rightarrow> run_state \<times> run_event list" where
  "count_failure s =
     (s\<lparr>consecutive_failures := consecutive_failures s + 1\<rparr>,
      [Failed (consecutive_failures s + 1)])"

definition failure_with_backoff :: "real \<Rightarrow> run_state \<Rightarrow> run_state \<times> run_event list" where
  "failure_with_backoff r s =
     (let (s1, ev) = count_failure s;
          sleep_for = min (backoff s1) 60 * (0.8 + 0.4 * r)
      in (s1\<lparr>backoff := min (backoff s1 * 2) 60\<rparr>, ev @ [Slept sleep_for]))"

text \<open>
  From the second \<^verbatim>\<open>detach_listener\<close> to the end of the pass: the attach, the
  reset of counter and backoff after it succeeded, the wait for the connection event
  and the watchdog loop.
\<close>

definition attach_and_watch :: "iteration \<Rightarrow> run_state \<Rightarrow> run_state \<times> run_event list" where
  "attach_and_watch it s =
     (let s1 = detach_listener s;
          attaching = [Attaching (backoff s1) (consecutive_failures s1) (sdk_generation s1)]
      in case attach_result it of
           AttachTimeout \<Rightarrow>
             (let (s2, ev) = failure_with_backoff (jitter it) s1 in (s2, attaching @ ev))
         | AttachRaises \<Rightarrow>
             (let (s2, ev) = failure_with_backoff (jitter it) s1 in (s2, attaching @ ev))
         | Attached lid \<Rightarrow>
             (let s2 = s1\<lparr>listener_id := Some lid, consecutive_failures := 0, backoff := 2\<rparr>
              in if \<not> connected_in_time it
                 then (let (s3, ev) = count_failure s2 in (s3, attaching @ ev @ [Slept 2]))
                 else case watchdog it of
                        Stale \<Rightarrow> (let (s3, ev) = count_failure s2 in (s3, attaching @ ev))
                      | Disconnected \<Rightarrow>
                          (let (s3, ev) = count_failure s2 in (s3, attaching @ ev))
                      | StopSet \<Rightarrow> (s2, attaching)))"

text \<open>
  One pass through the outer loop. With three or more failures counted the listener
  is detached and the connection rebuilt, the counter and the backoff are reset and the
  loop sleeps two seconds; an exception of the rebuild is counted as a failure by the
  general \<^verbatim>\<open>except\<close> branch.
\<close>

definition run_iteration :: "iteration \<Rightarrow> run_state \<Rightarrow> run_state \<times> run_event list" where
  "run_iteration it s =
     (if consecutive_failures s \<ge> 3 then
        (let s1 = detach_listener s
         in if connection_raises it then failure_with_backoff (jitter it) s1
            else
              (let s2 = s1\<lparr>sdk_generation := sdk_generation s1 + 1,
                            consecutive_failures := 0, backoff := 2\<rparr>;
                   (s3, ev) = attach_and_watch it s2
               in (s3, [Recreated (sdk_generation s2), Slept 2] @ ev)))
      else attach_and_watch it s)"

text \<open>The passes of a task from its start; stopping or cancelling the task ends the list.\<close>

fun run_loop :: "iteration list \<Rightarrow> run_state \<Rightarrow> run_state \<times> run_event list" where
  "run_loop [] s = (s, [])"
| "run_loop (it # its) s =
     (let (s1, ev1) = run_iteration it s;
          (s2, ev2) = run_loop its s1
      in (s2, ev1 @ ev2))"

text \<open>
  The rule for the attach attempts, read along the events of a task. \<open>Pending\<close>: the
  counter has reached 3 and no connection has been built since. \<open>Fresh g\<close>: connection
  \<open>g\<close> has been built and nothing was attempted on it yet. An attach is not allowed
  while a rebuild is pending, and the first attach after a rebuild must use the new
  connection with the counter at 0 and the backoff at 2.
\<close>

datatype guard = Clear | Pending | Fresh nat

fun guard_step :: "guard \<Rightarrow> run_event \<Rightarrow> guard" where
  "guard_step q (Failed n) = (if n \<ge> 3 then Pending else if q = Pending then Pending else Clear)"
| "guard_step q (Recreated g) = Fresh g"
| "guard_step q (Slept d) = q"
| "guard_step q (Attaching b n g) = (if q = Pending then Pending else Clear)"

fun attach_allowed :: "guard \<Rightarrow> run_event \<Rightarrow> bool" where
  "attach_allowed Pending (Attaching b n g) = False"
| "attach_allowed (Fresh g') (Attaching b n g) = (g = g' \<and> n = 0 \<and> b = 2)"
| "attach_allowed q e = True"

fun guarded :: "guard \<Rightarrow> run_event list \<Rightarrow> bool" where
  "guarded q [] = True"
| "guarded q (e # es) = (attach_allowed q e \<and> guarded (guard_step q e) es)"

definition guard_of :: "run_state \<Rightarrow> guard" where
  "guard_of s = (if consecutive_failures s \<ge> 3 then Pending else Clear)"

section \<open>Schedules of the stream manager\<close>

text \<open>
  Calls of the manager served one after the other, each to its end before the next
  begins, and the property that every task still running is the one the dictionary
  holds for its account.
\<close>

datatype manager_call = CallStart string | CallStop string

fun serve :: "manager_call \<Rightarrow> manager \<Rightarrow> manager" where
  "serve (CallStart a) m = snd (start_equity_stream a m)"
| "serve (CallStop a) m = snd (stop_equity_stream a m)"

definition all_live_registered :: "manager \<Rightarrow> bool" where
  "all_live_registered m \<longleftrightarrow>
     (\<forall>t < length (tasks m). \<not> task_done (tasks m ! t) \<longrightarrow>
        (\<exists>l. streams m (task_account (tasks m ! t)) = Some (t, l)))"

text \<open>
  A stop and a start of the same account that overlap: the stop sets the event and
  waits; the task ends; before the waiting stop gets the lock again, a start finds the
  registered task done and registers a new one; the stop then removes the entry.
\<close>

definition overlap_schedule :: "manager_step list" where
  "overlap_schedule =
     [Start ''acc'', StopBegin ''acc'', TaskFinishes 0, Start ''acc'', StopEnd ''acc'' 0]"

text \<open>
  An account that waits for its start while a stream of its external id is running and
  has just delivered a tick with equity equal to balance, and a start request that
  meets no further ticks.
\<close>

definition running_world :: world where
  "running_world =
     \<lparr>db = \<lparr>accounts =
              [\<lparr>acc_id = 1, acc_metaapi_account_id = Some ''acc'',
                acc_status = ''pending_start'', acc_phase = None, acc_plan_id = 7,
                acc_is_enabled = True, acc_in_review = False, acc_passed_at = None,
                acc_closed_at = None, acc_updated_at = None\<rparr>],
            trading_periods = [],
            plan_specifications = [],
            equity_ohlc_1min = [],
            equity_balance_ticks =
              [\<lparr>tick_ts = seconds 95, tick_metaapi_account_id = ''acc'',
                tick_equity = 10000, tick_balance = 10000\<rparr>],
            account_events = []\<rparr>,
      mgr = snd (start_equity_stream ''acc'' new_manager)\<rparr>"

definition quiet_env :: lifecycle_env where
  "quiet_env =
     \<lparr>poll_now = (\<lambda>i. seconds (100 + int i)), arrivals = (\<lambda>i. []),
      flat_now = seconds 101, balance_now = seconds 101, period_inserted = Some 4,
      period_now = seconds 101, status_update_executed = True\<rparr>"






section \<open>Properties of the bar table\<close>

lemma stored_bar_upsert_same:
  "stored_bar (upsert_bar b tbl) (bar_key b) =
     (case stored_bar tbl (bar_key b) of None \<Rightarrow> Some b | Some r \<Rightarrow> Some (widen r b))"
  by (induction tbl) (auto simp: stored_bar_def widen_def bar_key_def)

lemma stored_bar_upsert_other:
  "k \<noteq> bar_key b \<Longrightarrow> stored_bar (upsert_bar b tbl) k = stored_bar tbl k"
  by (induction tbl) (auto simp: stored_bar_def widen_def bar_key_def)

lemma widen_widen: "widen (widen r b) b = widen r b"
  by (simp add: widen_def)

lemma bar_key_widen: "bar_key (widen r b) = bar_key r"
  by (simp add: widen_def bar_key_def)

lemma upsert_bar_twice: "upsert_bar b (upsert_bar b tbl) = upsert_bar b tbl"
proof (induction tbl)
  case Nil
  show ?case by (simp add: widen_def)
next
  case (Cons r rs)
  then show ?case by (simp add: widen_widen bar_key_widen)
qed

text \<open>
  Claim C8. A flush is an upsert: against the row \<open>old\<close> already stored under the key of
  the flushed bar, the stored high becomes the maximum of both highs (so it is never
  lowered), the stored low the minimum of both lows (never raised), the close is the
  flushed bar's close and the open stays the stored one; flushing the same bar again
  leaves the table as the first flush left it.
\<close>

theorem persist_bar_upsert:
  assumes "stored_bar tbl (bar_key bar) = Some old"
  shows "\<exists>new. stored_bar (persist_bar True tbl bar) (bar_key bar) = Some new
           \<and> bar_high new = max (bar_high old) (bar_high bar)
           \<and> bar_high old \<le> bar_high new
           \<and> bar_low new = min (bar_low old) (bar_low bar)
           \<and> bar_low new \<le> bar_low old
           \<and> bar_close new = bar_close bar
           \<and> bar_open new = bar_open old
           \<and> persist_bar True (persist_bar True tbl bar) bar = persist_bar True tbl bar"
  using assms
  by (simp add: persist_bar_def stored_bar_upsert_same upsert_bar_twice widen_def)

theorem persist_bar_upsert_witness:
  "\<exists>new. stored_bar (persist_bar True
        [\<lparr>bar_metaapi_account_id = ''acc'', bar_time = 0, bar_open = 100, bar_high = 110,
          bar_low = 95, bar_close = 101\<rparr>]
        \<lparr>bar_metaapi_account_id = ''acc'', bar_time = 0, bar_open = 104, bar_high = 105,
          bar_low = 90, bar_close = 104\<rparr>) (''acc'', 0) = Some new
     \<and> bar_high new = 110 \<and> bar_low new = 90 \<and> bar_close new = 104 \<and> bar_open new = 100"
proof -
  let ?old = "\<lparr>bar_metaapi_account_id = ''acc'', bar_time = 0, bar_open = 100,
    bar_high = 110, bar_low = 95, bar_close = 101\<rparr>"
  let ?bar = "\<lparr>bar_metaapi_account_id = ''acc'', bar_time = 0, bar_open = 104,
    bar_high = 105, bar_low = 90, bar_close = 104\<rparr>"
  have h: "stored_bar [?old] (bar_key ?bar) = Some ?old"
    by (simp add: stored_bar_def bar_key_def)
  have k: "bar_key ?bar = (''acc'', 0)"
    by (simp add: bar_key_def)
  from persist_bar_upsert [OF h] show ?thesis
    unfolding k by auto
qed

section \<open>Properties of the flatness check\<close>

lemma latest_tick_None: "latest_tick rs = None \<longleftrightarrow> rs = []"
  by (cases rs) (auto split: option.splits)

lemma latest_tick_mem: "latest_tick rs = Some r \<Longrightarrow> r \<in> set rs"
  by (induction rs arbitrary: r) (auto split: option.splits if_splits)

lemma latest_tick_max: "latest_tick rs = Some r \<Longrightarrow> r' \<in> set rs \<Longrightarrow> tick_ts r' \<le> tick_ts r"
proof (induction rs arbitrary: r)
  case Nil
  then show ?case by simp
next
  case (Cons x xs)
  then show ?case
    by (cases "latest_tick xs") (auto simp: latest_tick_None split: if_splits)
qed

text \<open>
  Claim C7 as stated fails at a difference of exactly one cent: for equity 10000.04 and
  balance 10000.05 the difference is not below 0.01, yet the check finds the account
  flat, because the float difference is \<open>0.00999999999839929\<close>.
\<close>

theorem is_account_flat_counterexample:
  "is_account_flat (seconds 100)
     [\<lparr>tick_ts = seconds 90, tick_metaapi_account_id = ''acc'', tick_equity = 10000.04,
       tick_balance = 10000.05\<rparr>] ''acc''
   \<and> \<not> \<bar>(10000.04 :: real) - 10000.05\<bar> < 0.01"
  by code_simp

text \<open>
  Claim C7, amended. The account is flat exactly when there is a tick of the account
  within the last 60 seconds and a most recent one of them has
  \<open>abs(equity - balance) < 0.01\<close> in double precision: equity and balance taken as
  \<^verbatim>\<open>float8\<close>, their difference rounded to the nearest double and compared with the
  double nearest to 0.01. Without a tick in the last 60 seconds it is not flat. Equity
  10000.00 with balance 10000.004 is flat, equity 10000.00 with balance 10005.00 is not.
\<close>

theorem is_account_flat_iff:
  "is_account_flat now ticks a \<longleftrightarrow>
     (\<exists>row \<in> set ticks.
        tick_metaapi_account_id row = a \<and> now - seconds 60 < tick_ts row
        \<and> (\<forall>r \<in> set ticks. tick_metaapi_account_id r = a \<and> now - seconds 60 < tick_ts r
              \<longrightarrow> tick_ts r \<le> tick_ts row)
        \<and> latest_tick (recent_ticks now a ticks) = Some row
        \<and> \<bar>round_double (round_double (tick_equity row) - round_double (tick_balance row))\<bar>
            < round_double 0.01)"
proof (cases "latest_tick (recent_ticks now a ticks)")
  case None
  then show ?thesis by (auto simp: is_account_flat_def)
next
  case (Some row)
  have mem: "row \<in> set (recent_ticks now a ticks)"
    using Some by (rule latest_tick_mem)
  have top: "\<And>r. r \<in> set (recent_ticks now a ticks) \<Longrightarrow> tick_ts r \<le> tick_ts row"
    using Some by (rule latest_tick_max)
  show ?thesis
    using Some mem top by (auto simp: is_account_flat_def recent_ticks_def fsub_def Let_def)
qed

theorem is_account_flat_iff_witness:
  "is_account_flat (seconds 100)
     [\<lparr>tick_ts = seconds 30, tick_metaapi_account_id = ''acc'', tick_equity = 10000,
       tick_balance = 10005\<rparr>,
      \<lparr>tick_ts = seconds 90, tick_metaapi_account_id = ''acc'', tick_equity = 10000,
       tick_balance = 10000.004\<rparr>] ''acc''
   \<and> \<not> is_account_flat (seconds 100)
     [\<lparr>tick_ts = seconds 90, tick_metaapi_account_id = ''acc'', tick_equity = 10000,
       tick_balance = 10005\<rparr>] ''acc''
   \<and> \<not> is_account_flat (seconds 100)
     [\<lparr>tick_ts = seconds 30, tick_metaapi_account_id = ''acc'', tick_equity = 10000,
       tick_balance = 10000\<rparr>] ''acc''"
proof (intro conjI)
  let ?old = "\<lparr>tick_ts = seconds 30, tick_metaapi_account_id = ''acc'', tick_equity = 10000,
       tick_balance = 10005\<rparr>"
  let ?new = "\<lparr>tick_ts = seconds 90, tick_metaapi_account_id = ''acc'', tick_equity = 10000,
       tick_balance = 10000.004\<rparr>"
  have close: "\<bar>round_double (round_double 10000 - round_double 10000.004)\<bar>
      < round_double 0.01"
    by code_simp
  have latest: "latest_tick (recent_ticks (seconds 100) ''acc'' [?old, ?new]) = Some ?new"
    by (simp add: recent_ticks_def seconds_def)
  show "is_account_flat (seconds 100) [?old, ?new] ''acc''"
  proof (rule iffD2 [OF is_account_flat_iff], rule bexI [where x = ?new])
    show "tick_metaapi_account_id ?new = ''acc'' \<and> seconds 100 - seconds 60 < tick_ts ?new
        \<and> (\<forall>r \<in> set [?old, ?new].
              tick_metaapi_account_id r = ''acc'' \<and> seconds 100 - seconds 60 < tick_ts r
              \<longrightarrow> tick_ts r \<le> tick_ts ?new)
        \<and> latest_tick (recent_ticks (seconds 100) ''acc'' [?old, ?new]) = Some ?new
        \<and> \<bar>round_double (round_double (tick_equity ?new) - round_double (tick_balance ?new))\<bar>
            < round_double 0.01"
      using close latest by (simp add: seconds_def)
  qed simp
  show "\<not> is_account_flat (seconds 100)
     [\<lparr>tick_ts = seconds 90, tick_metaapi_account_id = ''acc'', tick_equity = 10000,
       tick_balance = 10005\<rparr>] ''acc''"
    by code_simp
  show "\<not> is_account_flat (seconds 100)
     [\<lparr>tick_ts = seconds 30, tick_metaapi_account_id = ''acc'', tick_equity = 10000,
       tick_balance = 10000\<rparr>] ''acc''"
    by code_simp
qed

section \<open>Properties of the equity monitor\<close>

lemma update_metrics_fields:
  "first_equity (update_metrics now e m) = first_equity m"
  "current_equity (update_metrics now e m) = e"
  "current_gain_pct (update_metrics now e m) =
     (if first_equity m > 0
      then round_double (round_double (e - first_equity m) / first_equity m) else 0)"
  "peak_equity (update_metrics now e m) = (if e > peak_equity m then e else peak_equity m)"
  "trough_equity (update_metrics now e m) = (if e < trough_equity m then e else trough_equity m)"
  by (simp_all add: update_metrics_def Let_def fsub_def fdiv_def)

lemma update_metrics_gains:
  "peak_gain_pct (update_metrics now e m) =
     (if e > peak_equity m then current_gain_pct (update_metrics now e m) else peak_gain_pct m)"
  "trough_gain_pct (update_metrics now e m) =
     (if e < trough_equity m then current_gain_pct (update_metrics now e m)
      else trough_gain_pct m)"
  "current_drawdown_pct (update_metrics now e m) =
     (if current_gain_pct (update_metrics now e m) < 0
      then \<bar>current_gain_pct (update_metrics now e m)\<bar> else 0)"
  by (simp_all add: update_metrics_def Let_def)

lemma monitor_process_tick_known:
  "metrics mon a = Some m \<Longrightarrow>
   metrics (monitor_process_tick ex now periods a e mon) a
     = Some (update_metrics now (round_double e) m)"
  by (simp add: monitor_process_tick_def Let_def)

lemma legacy_update_metrics_positive:
  "0 < first_equity m \<Longrightarrow> legacy_update_metrics now e m = (None, update_metrics now e m)"
  by (simp add: legacy_update_metrics_def update_metrics_def Let_def)

lemma legacy_process_tick_positive:
  "metrics mon a = Some m \<Longrightarrow> 0 < first_equity m \<Longrightarrow>
   legacy_process_tick ex now periods ticks a e mon
     = (None, monitor_process_tick ex now periods a e mon)"
  by (simp add: legacy_process_tick_def monitor_process_tick_def Let_def
      legacy_update_metrics_positive)

text \<open>
  Claim C4 as stated fails in two places. The gain is the float quotient, not
  \<open>(equity - f) / f\<close>: with first equity 3, a tick of 3.3 stores
  \<open>0.09999999999999994\<close>, which is neither 0.1 nor the double nearest to it. And the
  \<^verbatim>\<open>process_tick\<close> of \<^verbatim>\<open>equity_monitor.py\<close> has no test of the first equity:
  with first equity 0 it raises \<^verbatim>\<open>ZeroDivisionError\<close> where the claim has gain 0.
\<close>

theorem monitor_process_tick_counterexample:
  "map_option current_gain_pct
     (metrics (monitor_process_tick True 2 [] ''acc'' 3.3
        \<lparr>metrics = [''acc'' \<mapsto> new_metrics ''acc'' 0 3 1], metrics_cache = Map.empty\<rparr>) ''acc'')
     = Some (7205759403792789 / 72057594037927936)
   \<and> (7205759403792789 / 72057594037927936 :: real) \<noteq> (3.3 - 3) / 3
   \<and> (7205759403792789 / 72057594037927936 :: real) \<noteq> round_double ((3.3 - 3) / 3)
   \<and> fst (legacy_process_tick True 2 [] [] ''acc'' 5
        \<lparr>metrics = [''acc'' \<mapsto> new_metrics ''acc'' 0 0 1], metrics_cache = Map.empty\<rparr>)
     = Some ZeroDivision"
  by code_simp

text \<open>
  Claim C4, amended. For a tick of an account whose metrics are recorded with first
  equity \<open>f\<close>, the monitor of \<^verbatim>\<open>equity_stream_manager.py\<close> stores the equity \<open>e\<close>
  as a float and sets the current gain to \<open>(e - f) / f\<close> in double precision, the
  difference and the quotient each rounded to the nearest double, and to 0 when \<open>f\<close>
  is not greater than 0; peak equity and peak gain change only when \<open>e\<close> is strictly
  above the recorded peak, trough equity and trough gain only when \<open>e\<close> is strictly
  below the recorded trough; the current drawdown is the absolute value of a negative
  gain and 0 otherwise. The \<^verbatim>\<open>process_tick\<close> of \<^verbatim>\<open>equity_monitor.py\<close> does the
  same whenever \<open>f\<close> is greater than 0. Feeding 100, 105, 95, 102 to a monitor that
  initialises on the first tick (first equity 100) ends with peak gain the double nearest
  to 0.05, trough gain its negative and drawdown 0.
\<close>

theorem monitor_process_tick_metrics:
  assumes "metrics mon a = Some m"
  shows "(\<exists>m'. metrics (monitor_process_tick ex now periods a e mon) a = Some m'
           \<and> first_equity m' = first_equity m
           \<and> current_equity m' = round_double e
           \<and> current_gain_pct m' =
               (if first_equity m > 0
                then round_double (round_double (round_double e - first_equity m)
                                     / first_equity m)
                else 0)
           \<and> peak_equity m' = (if round_double e > peak_equity m then round_double e
                                else peak_equity m)
           \<and> peak_gain_pct m' =
               (if round_double e > peak_equity m then current_gain_pct m' else peak_gain_pct m)
           \<and> trough_equity m' = (if round_double e < trough_equity m then round_double e
                                  else trough_equity m)
           \<and> trough_gain_pct m' =
               (if round_double e < trough_equity m then current_gain_pct m'
                else trough_gain_pct m)
           \<and> current_drawdown_pct m' =
               (if current_gain_pct m' < 0 then \<bar>current_gain_pct m'\<bar> else 0))
       \<and> (0 < first_equity m \<longrightarrow>
            legacy_process_tick ex now periods ticks a e mon
              = (None, monitor_process_tick ex now periods a e mon))
       \<and> (\<exists>mf. metrics (monitor_feed
                   [\<lparr>trading_period_id = 1, tp_account_id = 1, tp_metaapi_account_id = ''acc'',
                     period_type = ''phase_1'', start_time = 0, end_time = None,
                     tp_status = ''active'', end_reason = None\<rparr>] ''acc''
                   [(1, 100), (2, 105), (3, 95), (4, 102)] empty_monitor) ''acc'' = Some mf
             \<and> first_equity mf = 100 \<and> peak_gain_pct mf = round_double 0.05
             \<and> trough_gain_pct mf = - round_double 0.05 \<and> current_drawdown_pct mf = 0)"
proof (intro conjI)
  show "\<exists>m'. metrics (monitor_process_tick ex now periods a e mon) a = Some m'
           \<and> first_equity m' = first_equity m
           \<and> current_equity m' = round_double e
           \<and> current_gain_pct m' =
               (if first_equity m > 0
                then round_double (round_double (round_double e - first_equity m)
                                     / first_equity m)
                else 0)
           \<and> peak_equity m' = (if round_double e > peak_equity m then round_double e
                                else peak_equity m)
           \<and> peak_gain_pct m' =
               (if round_double e > peak_equity m then current_gain_pct m' else peak_gain_pct m)
           \<and> trough_equity m' = (if round_double e < trough_equity m then round_double e
                                  else trough_equity m)
           \<and> trough_gain_pct m' =
               (if round_double e < trough_equity m then current_gain_pct m'
                else trough_gain_pct m)
           \<and> current_drawdown_pct m' =
               (if current_gain_pct m' < 0 then \<bar>current_gain_pct m'\<bar> else 0)"
  proof (intro exI conjI)
    show "metrics (monitor_process_tick ex now periods a e mon) a
        = Some (update_metrics now (round_double e) m)"
      using assms by (rule monitor_process_tick_known)
  qed (simp_all only: update_metrics_fields update_metrics_gains)
next
  show "0 < first_equity m \<longrightarrow>
            legacy_process_tick ex now periods ticks a e mon
              = (None, monitor_process_tick ex now periods a e mon)"
    using assms by (simp add: legacy_process_tick_positive)
next
  have "map_option (\<lambda>mf. (first_equity mf, peak_gain_pct mf, trough_gain_pct mf,
            current_drawdown_pct mf))
          (metrics (monitor_feed
                   [\<lparr>trading_period_id = 1, tp_account_id = 1, tp_metaapi_account_id = ''acc'',
                     period_type = ''phase_1'', start_time = 0, end_time = None,
                     tp_status = ''active'', end_reason = None\<rparr>] ''acc''
                   [(1, 100), (2, 105), (3, 95), (4, 102)] empty_monitor) ''acc'')
        = Some (100, round_double 0.05, - round_double 0.05, 0)"
    by code_simp
  then show "\<exists>mf. metrics (monitor_feed
                   [\<lparr>trading_period_id = 1, tp_account_id = 1, tp_metaapi_account_id = ''acc'',
                     period_type = ''phase_1'', start_time = 0, end_time = None,
                     tp_status = ''active'', end_reason = None\<rparr>] ''acc''
                   [(1, 100), (2, 105), (3, 95), (4, 102)] empty_monitor) ''acc'' = Some mf
             \<and> first_equity mf = 100 \<and> peak_gain_pct mf = round_double 0.05
             \<and> trough_gain_pct mf = - round_double 0.05 \<and> current_drawdown_pct mf = 0"
    by auto
qed

theorem monitor_process_tick_metrics_witness:
  "\<exists>m'. metrics (monitor_process_tick True 2 []  ''acc'' 105
           \<lparr>metrics = [''acc'' \<mapsto> new_metrics ''acc'' 0 100 1], metrics_cache = Map.empty\<rparr>)
           ''acc'' = Some m'
     \<and> current_gain_pct m' = round_double 0.05 \<and> peak_equity m' = 105
     \<and> peak_gain_pct m' = round_double 0.05
     \<and> trough_equity m' = 100 \<and> trough_gain_pct m' = 0 \<and> current_drawdown_pct m' = 0
     \<and> legacy_process_tick True 2 [] [] ''acc'' 105
          \<lparr>metrics = [''acc'' \<mapsto> new_metrics ''acc'' 0 100 1], metrics_cache = Map.empty\<rparr>
        = (None, monitor_process_tick True 2 [] ''acc'' 105
             \<lparr>metrics = [''acc'' \<mapsto> new_metrics ''acc'' 0 100 1],
              metrics_cache = Map.empty\<rparr>)"
proof -
  have h: "metrics \<lparr>metrics = [''acc'' \<mapsto> new_metrics ''acc'' 0 100 1],
      metrics_cache = Map.empty\<rparr> ''acc'' = Some (new_metrics ''acc'' 0 100 1)"
    by simp
  have r105: "round_double 105 = 105" by code_simp
  have gain: "round_double (round_double 5 / 100) = round_double (1 / 20)" by code_simp
  have pos: "\<not> round_double (1 / 20) < 0" by code_simp
  have f: "0 < first_equity (new_metrics ''acc'' 0 100 1)"
    by (simp add: new_metrics_def)
  note inst = monitor_process_tick_metrics [OF h, of True 2 "[]" 105 "[]"]
  from inst [THEN conjunct2, THEN conjunct1] f
  have legacy: "legacy_process_tick True 2 [] [] ''acc'' 105
          \<lparr>metrics = [''acc'' \<mapsto> new_metrics ''acc'' 0 100 1], metrics_cache = Map.empty\<rparr>
        = (None, monitor_process_tick True 2 [] ''acc'' 105
             \<lparr>metrics = [''acc'' \<mapsto> new_metrics ''acc'' 0 100 1],
              metrics_cache = Map.empty\<rparr>)"
    by blast
  from inst [THEN conjunct1] obtain m' where
    m': "metrics (monitor_process_tick True 2 []  ''acc'' 105
           \<lparr>metrics = [''acc'' \<mapsto> new_metrics ''acc'' 0 100 1], metrics_cache = Map.empty\<rparr>)
           ''acc'' = Some m'
     \<and> current_gain_pct m' = round_double 0.05 \<and> peak_equity m' = 105
     \<and> peak_gain_pct m' = round_double 0.05
     \<and> trough_equity m' = 100 \<and> trough_gain_pct m' = 0 \<and> current_drawdown_pct m' = 0"
    using pos by (auto simp: new_metrics_def r105 gain)
  show ?thesis using m' legacy by blast
qed

section \<open>Properties of the rule engine\<close>

lemma fold_max_Max: "fold max (map f rs) (f r) = Max (f ` set (r # rs))"
proof -
  have "fold max (map f rs) (f r) = Max (set (f r # map f rs))"
    by (rule Max.set_eq_fold [symmetric])
  then show ?thesis by simp
qed

lemma fold_min_Min: "fold min (map f rs) (f r) = Min (f ` set (r # rs))"
proof -
  have "fold min (map f rs) (f r) = Min (set (f r # map f rs))"
    by (rule Min.set_eq_fold [symmetric])
  then show ?thesis by simp
qed

lemma period_bars_set:
  "set (period_bars tbl a pstart)
     = {r \<in> set tbl. bar_metaapi_account_id r = a \<and> pstart \<le> bar_time r}"
  by (simp add: period_bars_def)

lemma get_period_high_low_extrema:
  "period_bars tbl a pstart \<noteq> [] \<Longrightarrow>
   get_period_high_low tbl a pstart =
     Some (round_double (Max (bar_high ` set (period_bars tbl a pstart))),
           round_double (Min (bar_low ` set (period_bars tbl a pstart))))"
  by (cases "period_bars tbl a pstart")
     (simp_all add: get_period_high_low_def fold_max_Max fold_min_Min del: set_simps image_insert)

lemma earliest_bar_None: "earliest_bar rs = None \<longleftrightarrow> rs = []"
  by (cases rs) (auto split: option.splits)

lemma earliest_bar_mem: "earliest_bar rs = Some r \<Longrightarrow> r \<in> set rs"
  by (induction rs arbitrary: r) (auto split: option.splits if_splits)

lemma earliest_bar_strict:
  "r0 \<in> set rs \<Longrightarrow> \<forall>r \<in> set rs. r \<noteq> r0 \<longrightarrow> bar_time r0 < bar_time r \<Longrightarrow>
   earliest_bar rs = Some r0"
proof (induction rs)
  case Nil
  then show ?case by simp
next
  case (Cons r rs)
  show ?case
  proof (cases "r = r0")
    case True
    show ?thesis
    proof (cases "earliest_bar rs")
      case None
      then show ?thesis using True by simp
    next
      case (Some r')
      then have "r' \<in> set rs" by (rule earliest_bar_mem)
      then have "\<not> bar_time r' < bar_time r0"
        using Cons.prems(2) by (cases "r' = r0") auto
      then show ?thesis using Some True by simp
    qed
  next
    case False
    then have mem: "r0 \<in> set rs" using Cons.prems(1) by simp
    have "earliest_bar rs = Some r0"
      using Cons.IH [OF mem] Cons.prems(2) by simp
    moreover have "bar_time r0 < bar_time r"
      using Cons.prems(2) False by simp
    ultimately show ?thesis by simp
  qed
qed

lemma get_period_baseline_bars:
  "get_period_baseline tbl a pstart = Some b \<Longrightarrow> period_bars tbl a pstart \<noteq> []"
  by (auto simp: get_period_baseline_def)

lemma check_account_nonzero_baseline:
  assumes "get_period_baseline tbl (aa_metaapi_account_id account) (aa_start_time account) = Some b"
    and "b \<noteq> 0"
    and "get_period_high_low tbl (aa_metaapi_account_id account) (aa_start_time account)
           = Some (h, l)"
  shows "check_account tbl account =
           Inr (decide (round_double (round_double (h - b) / b))
                  (round_double (round_double (l - b) / b))
                  (round_double (round_double (aa_profit_target_pct account) / 100))
                  (round_double (round_double (aa_max_drawdown_pct account) / 100)))"
  using assms by (simp add: check_account_def py_div_def fdiv_def fsub_def Let_def)

text \<open>
  Claim C1 as stated fails: the gains and the thresholds are computed in double
  precision. With both limits at 6 percent and one bar of open 10001 and high 10601.06,
  \<open>(H - b) / b\<close> is exactly 0.06, at least the limit and also at least the double the
  code compares with, but the code computes the gain \<open>0.05999999999999995\<close> and
  returns nothing. With both limits at 10 percent, open 10000.50 and low 9000.45 give
  \<open>(L - b) / b\<close> exactly -0.1, and the code returns nothing as well.
\<close>

theorem check_account_counterexample:
  "check_account
     [\<lparr>bar_metaapi_account_id = ''acc'', bar_time = 0, bar_open = 10001, bar_high = 10601.06,
       bar_low = 10001, bar_close = 10601.06\<rparr>]
     \<lparr>aa_account_id = 1, aa_metaapi_account_id = ''acc'', aa_status = ''active'',
      aa_phase = Some ''phase_1'', aa_plan_id = 1, aa_trading_period_id = 1,
      aa_period_type = ''phase_1'', aa_start_time = 0, aa_plan_name = ''plan'',
      aa_phase_type = ''evaluation'', aa_profit_target_pct = 6, aa_max_drawdown_pct = 6,
      aa_daily_drawdown_pct = 5, aa_min_trading_days = 0, aa_profit_split_pct = 80\<rparr>
     = Inr None
   \<and> (10601.06 - 10001) / 10001 \<ge> (6 / 100 :: real)
   \<and> (10601.06 - 10001) / 10001 \<ge> fdiv (round_double 6) 100
   \<and> check_account
     [\<lparr>bar_metaapi_account_id = ''acc'', bar_time = 0, bar_open = 10000.50, bar_high = 10000.50,
       bar_low = 9000.45, bar_close = 9000.45\<rparr>]
     \<lparr>aa_account_id = 1, aa_metaapi_account_id = ''acc'', aa_status = ''active'',
      aa_phase = Some ''phase_1'', aa_plan_id = 1, aa_trading_period_id = 1,
      aa_period_type = ''phase_1'', aa_start_time = 0, aa_plan_name = ''plan'',
      aa_phase_type = ''evaluation'', aa_profit_target_pct = 10, aa_max_drawdown_pct = 10,
      aa_daily_drawdown_pct = 5, aa_min_trading_days = 0, aa_profit_split_pct = 80\<rparr>
     = Inr None
   \<and> (9000.45 - 10000.50) / 10000.50 \<le> - (10 / 100 :: real)"
  by code_simp

text \<open>
  Claim C1, amended. Let the bars of the period be the stored bars of the account whose
  bar time is at or after the period start, let the baseline \<open>b\<close> be the open of the
  earliest of them as a double, and let \<open>H\<close> and \<open>L\<close> be the greatest high and the
  least low over all of them as doubles. If \<open>b\<close> is positive, \<open>check_account\<close>
  returns \<open>profit_target\<close> if the high gain is at least the profit target, else
  \<open>drawdown_breach\<close> if the low gain is at most minus the maximal drawdown, else
  nothing, where the gains are \<open>(H - b) / b\<close> and \<open>(L - b) / b\<close> computed in double
  precision, the difference and the quotient each rounded to the nearest double, and the
  two thresholds are the plan's percent figures as doubles divided by 100 in double
  precision. The target is tested first, so it wins when both thresholds are crossed.
\<close>

theorem check_account_decision:
  assumes "bars = {r \<in> set tbl. bar_metaapi_account_id r = aa_metaapi_account_id account
                      \<and> aa_start_time account \<le> bar_time r}"
    and "first_bar \<in> bars"
    and "\<forall>r \<in> bars. r \<noteq> first_bar \<longrightarrow> bar_time first_bar < bar_time r"
    and "b = round_double (bar_open first_bar)"
    and "0 < b"
    and "H = round_double (Max (bar_high ` bars))"
    and "L = round_double (Min (bar_low ` bars))"
    and "high_gain_pct = round_double (round_double (H - b) / b)"
    and "low_gain_pct = round_double (round_double (L - b) / b)"
    and "profit_target_pct = round_double (round_double (aa_profit_target_pct account) / 100)"
    and "max_drawdown_pct = round_double (round_double (aa_max_drawdown_pct account) / 100)"
  shows "check_account tbl account =
           Inr (if high_gain_pct \<ge> profit_target_pct then Some profit_target
                else if low_gain_pct \<le> - max_drawdown_pct then Some drawdown_breach
                else None)
         \<and> (high_gain_pct \<ge> profit_target_pct \<and> low_gain_pct \<le> - max_drawdown_pct
              \<longrightarrow> check_account tbl account = Inr (Some profit_target))"
proof -
  let ?a = "aa_metaapi_account_id account"
  let ?p = "aa_start_time account"
  have set_eq: "set (period_bars tbl ?a ?p) = bars"
    unfolding assms(1) by (rule period_bars_set)
  have "earliest_bar (period_bars tbl ?a ?p) = Some first_bar"
    using assms(2,3) unfolding set_eq [symmetric] by (rule earliest_bar_strict)
  then have base: "get_period_baseline tbl ?a ?p = Some b"
    by (simp add: get_period_baseline_def assms(4))
  have nonempty: "period_bars tbl ?a ?p \<noteq> []"
    using base by (rule get_period_baseline_bars)
  have hl: "get_period_high_low tbl ?a ?p = Some (H, L)"
    using get_period_high_low_extrema [OF nonempty] unfolding set_eq assms(6,7) .
  have "b \<noteq> 0" using assms(5) by simp
  from check_account_nonzero_baseline [OF base this hl]
  show ?thesis
    unfolding assms(8-11) decide_def by auto
qed

text \<open>
  The example of the specification: baseline 10000, a bar with high 11050 followed by a
  bar that falls to 8900 and closes at 10050, both limits 10 percent, so that both
  thresholds are crossed. The table also holds a bar from before the period start and a
  bar of another account, both with wider extremes.
\<close>

theorem check_account_decision_witness:
  "check_account
     [\<lparr>bar_metaapi_account_id = ''acc'', bar_time = 0, bar_open = 20000, bar_high = 30000,
       bar_low = 5000, bar_close = 20000\<rparr>,
      \<lparr>bar_metaapi_account_id = ''other'', bar_time = 120000000, bar_open = 500,
       bar_high = 90000, bar_low = 100, bar_close = 500\<rparr>,
      \<lparr>bar_metaapi_account_id = ''acc'', bar_time = 120000000, bar_open = 10000,
       bar_high = 11050, bar_low = 9990, bar_close = 11000\<rparr>,
      \<lparr>bar_metaapi_account_id = ''acc'', bar_time = 180000000, bar_open = 11000,
       bar_high = 11000, bar_low = 8900, bar_close = 10050\<rparr>]
     \<lparr>aa_account_id = 1, aa_metaapi_account_id = ''acc'', aa_status = ''active'',
      aa_phase = Some ''phase_1'', aa_plan_id = 1, aa_trading_period_id = 1,
      aa_period_type = ''phase_1'', aa_start_time = 60000000, aa_plan_name = ''plan'',
      aa_phase_type = ''evaluation'', aa_profit_target_pct = 10, aa_max_drawdown_pct = 10,
      aa_daily_drawdown_pct = 5, aa_min_trading_days = 0, aa_profit_split_pct = 80\<rparr>
   = Inr (Some profit_target)
   \<and> round_double 0.105 \<ge> round_double 0.1
   \<and> round_double (- 0.11) \<le> - round_double 0.1"
proof -
  let ?b1 = "\<lparr>bar_metaapi_account_id = ''acc'', bar_time = 120000000, bar_open = 10000,
       bar_high = 11050, bar_low = 9990, bar_close = 11000\<rparr>"
  let ?b2 = "\<lparr>bar_metaapi_account_id = ''acc'', bar_time = 180000000, bar_open = 11000,
       bar_high = 11000, bar_low = 8900, bar_close = 10050\<rparr>"
  let ?tbl = "[\<lparr>bar_metaapi_account_id = ''acc'', bar_time = 0, bar_open = 20000,
       bar_high = 30000, bar_low = 5000, bar_close = 20000\<rparr>,
      \<lparr>bar_metaapi_account_id = ''other'', bar_time = 120000000, bar_open = 500,
       bar_high = 90000, bar_low = 100, bar_close = 500\<rparr>, ?b1, ?b2]"
  let ?account = "\<lparr>aa_account_id = 1, aa_metaapi_account_id = ''acc'', aa_status = ''active'',
      aa_phase = Some ''phase_1'', aa_plan_id = 1, aa_trading_period_id = 1,
      aa_period_type = ''phase_1'', aa_start_time = 60000000, aa_plan_name = ''plan'',
      aa_phase_type = ''evaluation'', aa_profit_target_pct = 10, aa_max_drawdown_pct = 10,
      aa_daily_drawdown_pct = 5, aa_min_trading_days = 0, aa_profit_split_pct = 80\<rparr>"
  have bars: "{?b1, ?b2} = {r \<in> set ?tbl. bar_metaapi_account_id r = aa_metaapi_account_id ?account
                      \<and> aa_start_time ?account \<le> bar_time r}"
    by auto
  have first: "?b1 \<in> {?b1, ?b2}" by simp
  have strict: "\<forall>r \<in> {?b1, ?b2}. r \<noteq> ?b1 \<longrightarrow> bar_time ?b1 < bar_time r" by simp
  have b: "(10000::real) = round_double (bar_open ?b1)" by code_simp
  have pos: "(0::real) < 10000" by simp
  have H: "(11050::real) = round_double (Max (bar_high ` {?b1, ?b2}))"
  proof -
    have "Max (bar_high ` {?b1, ?b2}) = 11050" by simp
    moreover have "round_double 11050 = 11050" by code_simp
    ultimately show ?thesis by simp
  qed
  have L: "(8900::real) = round_double (Min (bar_low ` {?b1, ?b2}))"
  proof -
    have "Min (bar_low ` {?b1, ?b2}) = 8900" by simp
    moreover have "round_double 8900 = 8900" by code_simp
    ultimately show ?thesis by simp
  qed
  have hg: "round_double 0.105 = round_double (round_double (11050 - 10000) / 10000)"
    by code_simp
  have lg: "round_double (- 0.11) = round_double (round_double (8900 - 10000) / 10000)"
    by code_simp
  have pt: "round_double 0.1 = round_double (round_double (aa_profit_target_pct ?account) / 100)"
    by code_simp
  have dd: "round_double 0.1 = round_double (round_double (aa_max_drawdown_pct ?account) / 100)"
    by code_simp
  have high: "round_double 0.105 \<ge> round_double 0.1" by code_simp
  have low: "round_double (- 0.11) \<le> - round_double 0.1" by code_simp
  from check_account_decision [OF bars first strict b pos H L hg lg pt dd, THEN conjunct2]
    high low
  show ?thesis by blast
qed

text \<open>
  Claim C10. A baseline of exactly 0 is treated as a missing one: the account is
  skipped with no decision. So no division by the baseline is reached with a zero
  divisor: \<open>check_account\<close> never ends in a \<open>ZeroDivisionError\<close>.
\<close>

theorem check_account_zero_baseline:
  "(get_period_baseline tbl (aa_metaapi_account_id account) (aa_start_time account) = Some 0
      \<or> get_period_baseline tbl (aa_metaapi_account_id account) (aa_start_time account) = None
    \<longrightarrow> check_account tbl account = Inr None)
   \<and> check_account tbl account \<noteq> Inl ZeroDivisionError"
  by (auto simp: check_account_def py_div_def Let_def split: option.splits sum.splits)

theorem check_account_zero_baseline_witness:
  "check_account
     [\<lparr>bar_metaapi_account_id = ''acc'', bar_time = 0, bar_open = 0, bar_high = 50,
       bar_low = 0, bar_close = 20\<rparr>]
     \<lparr>aa_account_id = 1, aa_metaapi_account_id = ''acc'', aa_status = ''active'',
      aa_phase = Some ''phase_1'', aa_plan_id = 1, aa_trading_period_id = 1,
      aa_period_type = ''phase_1'', aa_start_time = 0, aa_plan_name = ''plan'',
      aa_phase_type = ''evaluation'', aa_profit_target_pct = 10, aa_max_drawdown_pct = 10,
      aa_daily_drawdown_pct = 5, aa_min_trading_days = 0, aa_profit_split_pct = 80\<rparr>
   = Inr None"
proof -
  let ?tbl = "[\<lparr>bar_metaapi_account_id = ''acc'', bar_time = 0, bar_open = 0, bar_high = 50,
       bar_low = 0, bar_close = 20\<rparr>]"
  let ?account = "\<lparr>aa_account_id = 1, aa_metaapi_account_id = ''acc'', aa_status = ''active'',
      aa_phase = Some ''phase_1'', aa_plan_id = 1, aa_trading_period_id = 1,
      aa_period_type = ''phase_1'', aa_start_time = 0, aa_plan_name = ''plan'',
      aa_phase_type = ''evaluation'', aa_profit_target_pct = 10, aa_max_drawdown_pct = 10,
      aa_daily_drawdown_pct = 5, aa_min_trading_days = 0, aa_profit_split_pct = 80\<rparr>"
  have base: "get_period_baseline ?tbl (aa_metaapi_account_id ?account)
      (aa_start_time ?account) = Some 0"
    by (simp add: get_period_baseline_def period_bars_def round_double_def)
  from check_account_zero_baseline [of ?tbl ?account, THEN conjunct1] base
  show ?thesis by blast
qed

section \<open>Properties of the breach handler\<close>
















section \<open>Properties of the stream manager\<close>

lemma start_equity_stream_running:
  "streams m a = Some (t, l) \<Longrightarrow> live m t \<Longrightarrow> start_equity_stream a m = (False, m)"
  by (simp add: start_equity_stream_def)

lemma all_live_registered_start:
  assumes "all_live_registered m"
  shows "all_live_registered (snd (start_equity_stream a m))"
proof (cases "case streams m a of None \<Rightarrow> False | Some (t, _) \<Rightarrow> live m t")
  case True
  then show ?thesis using assms by (simp add: start_equity_stream_def)
next
  case False
  have old: "\<And>t. t < length (tasks m) \<Longrightarrow> \<not> task_done (tasks m ! t) \<Longrightarrow>
      task_account (tasks m ! t) \<noteq> a"
  proof
    fix t assume t: "t < length (tasks m)" "\<not> task_done (tasks m ! t)"
      and a: "task_account (tasks m ! t) = a"
    from assms t obtain l where "streams m (task_account (tasks m ! t)) = Some (t, l)"
      unfolding all_live_registered_def by blast
    with a t False show False by (simp add: live_def)
  qed
  show ?thesis
    unfolding all_live_registered_def
  proof (intro allI impI)
    fix t
    let ?m' = "snd (start_equity_stream a m)"
    assume t: "t < length (tasks ?m')" and lv: "\<not> task_done (tasks ?m' ! t)"
    show "\<exists>l. streams ?m' (task_account (tasks ?m' ! t)) = Some (t, l)"
    proof (cases "t < length (tasks m)")
      case True
      with lv False have lv0: "\<not> task_done (tasks m ! t)"
        by (simp add: start_equity_stream_def nth_append)
      from assms True lv0 obtain l where "streams m (task_account (tasks m ! t)) = Some (t, l)"
        unfolding all_live_registered_def by blast
      with old [OF True lv0] True False show ?thesis
        by (simp add: start_equity_stream_def nth_append)
    next
      case F2: False
      with t \<open>\<not> (case streams m a of None \<Rightarrow> False | Some (t, _) \<Rightarrow> live m t)\<close>
      have "t = length (tasks m)" by (simp add: start_equity_stream_def)
      with \<open>\<not> (case streams m a of None \<Rightarrow> False | Some (t, _) \<Rightarrow> live m t)\<close>
      show ?thesis by (simp add: start_equity_stream_def nth_append)
    qed
  qed
qed

lemma all_live_registered_stop:
  assumes "all_live_registered m"
  shows "all_live_registered (snd (stop_equity_stream a m))"
proof (cases "streams m a")
  case None
  then show ?thesis using assms by (simp add: stop_equity_stream_def)
next
  case (Some p)
  obtain t l where p: "p = (t, l)" by (cases p)
  let ?m1 = "snd (stop_begin a m)"
  let ?m2 = "task_finishes t ?m1"
  have tasks2: "tasks ?m2 =
      (if t < length (tasks m)
       then (tasks m)[t := (tasks m ! t)\<lparr>stop_event := True, task_done := True\<rparr>]
       else tasks m)"
    using Some p by (simp add: stop_begin_def task_finishes_def list_update_beyond)
  have res: "snd (stop_equity_stream a m) =
      ?m2\<lparr>streams := (streams m)(a := None),
           pending_stops := remove1 (a, t) (pending_stops m @ [(a, t)])\<rparr>"
    using Some p
    by (auto simp: stop_equity_stream_def stop_end_def stop_begin_def task_finishes_def live_def)
  show ?thesis
    unfolding all_live_registered_def
  proof (intro allI impI)
    fix u
    let ?m' = "snd (stop_equity_stream a m)"
    assume u: "u < length (tasks ?m')" and lv: "\<not> task_done (tasks ?m' ! u)"
    have ul: "u < length (tasks m)" using u by (simp add: res tasks2 split: if_splits)
    have ut: "u \<noteq> t" using lv ul by (auto simp: res tasks2 split: if_splits)
    have same: "tasks ?m' ! u = tasks m ! u" using ut by (simp add: res tasks2)
    with lv have lv0: "\<not> task_done (tasks m ! u)" by simp
    from assms ul lv0 obtain l' where
      reg: "streams m (task_account (tasks m ! u)) = Some (u, l')"
      unfolding all_live_registered_def by blast
    have "task_account (tasks m ! u) \<noteq> a"
      using reg Some p ut by auto
    with reg same show "\<exists>l. streams ?m' (task_account (tasks ?m' ! u)) = Some (u, l)"
      by (simp add: res)
  qed
qed

lemma all_live_registered_serve:
  "all_live_registered m \<Longrightarrow> all_live_registered (serve c m)"
  by (cases c) (simp_all add: all_live_registered_start all_live_registered_stop)

lemma all_live_registered_serial:
  "all_live_registered (fold serve calls new_manager)"
proof -
  have "all_live_registered m \<Longrightarrow> all_live_registered (fold serve calls m)" for m
    by (induction calls arbitrary: m) (simp_all add: all_live_registered_serve)
  moreover have "all_live_registered new_manager"
    by (simp add: all_live_registered_def new_manager_def)
  ultimately show ?thesis .
qed

lemma live_tasks_at_most_one:
  assumes "all_live_registered m"
  shows "length (live_tasks m a) \<le> 1"
proof (cases "streams m a")
  case None
  have "live_tasks m a = []"
    unfolding live_tasks_def filter_empty_conv
  proof
    fix t assume "t \<in> set [0 ..< length (tasks m)]"
    then have "t < length (tasks m)" by simp
    with assms None show "\<not> (task_account (tasks m ! t) = a \<and> \<not> task_done (tasks m ! t))"
      unfolding all_live_registered_def by fastforce
  qed
  then show ?thesis by simp
next
  case (Some p)
  have sub: "set (live_tasks m a) \<subseteq> {fst p}"
  proof
    fix t assume "t \<in> set (live_tasks m a)"
    then have t: "t < length (tasks m)" "task_account (tasks m ! t) = a"
        "\<not> task_done (tasks m ! t)"
      by (simp_all add: live_tasks_def)
    with assms obtain l where "streams m a = Some (t, l)"
      unfolding all_live_registered_def by blast
    with Some show "t \<in> {fst p}" by auto
  qed
  have "distinct (live_tasks m a)" by (simp add: live_tasks_def)
  then have "length (live_tasks m a) = card (set (live_tasks m a))"
    by (simp add: distinct_card)
  also have "\<dots> \<le> card {fst p}" using sub by (intro card_mono) simp_all
  finally show ?thesis by simp
qed

text \<open>
  Claim C6. A second start for an account whose registered task is running returns
  false and changes nothing, and while calls are served one after the other every
  account has at most one running task (\<open>start_equity_stream_running\<close>,
  \<open>all_live_registered_serial\<close>, \<open>live_tasks_at_most_one\<close>). The manager does not
  keep this up when a stop and a start of one account overlap: after the schedule
  \<open>overlap_schedule\<close> task 1 runs without being registered, so the next start for the
  account returns true and two tasks of the account run side by side.
\<close>

theorem start_equity_stream_overlapping_stop:
  "live_tasks (manager_run overlap_schedule new_manager) ''acc'' = [1]
   \<and> streams (manager_run overlap_schedule new_manager) ''acc'' = None
   \<and> fst (start_equity_stream ''acc'' (manager_run overlap_schedule new_manager)) = True
   \<and> live_tasks (snd (start_equity_stream ''acc'' (manager_run overlap_schedule new_manager)))
        ''acc'' = [1, 2]"
  by code_simp

section \<open>Properties of the start request\<close>

lemma attempt_start_evaluation_running:
  "streams (mgr w) a = Some (t, l) \<Longrightarrow> live (mgr w) t \<Longrightarrow>
   attempt_start_evaluation env account_id a w = (Inl FailedToStartStream, w)"
  by (simp add: attempt_start_evaluation_def start_equity_stream_running)

text \<open>
  Claim C9. A start request for an account whose stream is already running does not go
  on to the wait for fresh data and to the flatness check: \<open>start_equity_stream\<close>
  answers false, and the request ends at once with the failure ``Failed to start equity
  stream'', here although a fresh tick with equity equal to balance is stored. The same
  request succeeds when no stream is running, and the synchronising service counts the
  same answer of the manager as a started stream.
\<close>

theorem attempt_start_evaluation_running_stream:
  "attempt_start_evaluation quiet_env 1 ''acc'' running_world
     = (Inl FailedToStartStream, running_world)
   \<and> has_equity_data (poll_now quiet_env 0) (equity_balance_ticks (db running_world)) ''acc''
   \<and> is_account_flat (flat_now quiet_env) (equity_balance_ticks (db running_world)) ''acc''
   \<and> fst (attempt_start_evaluation quiet_env 1 ''acc'' (running_world\<lparr>mgr := new_manager\<rparr>))
       = Inr (Some 4)
   \<and> fst (sync_start_stream ''acc'' ({}, mgr running_world)) = True"
proof (intro conjI)
  have reg: "streams (mgr running_world) ''acc'' = Some (0, None)"
    by (simp add: running_world_def start_equity_stream_def new_manager_def)
  have lv: "live (mgr running_world) 0"
    by (simp add: running_world_def start_equity_stream_def new_manager_def live_def)
  show "attempt_start_evaluation quiet_env 1 ''acc'' running_world
     = (Inl FailedToStartStream, running_world)"
    using reg lv by (rule attempt_start_evaluation_running)
  show "has_equity_data (poll_now quiet_env 0) (equity_balance_ticks (db running_world)) ''acc''"
    by (simp add: has_equity_data_def recent_ticks_def quiet_env_def running_world_def
        seconds_def)
  show "is_account_flat (flat_now quiet_env) (equity_balance_ticks (db running_world)) ''acc''"
    by code_simp
  show "fst (attempt_start_evaluation quiet_env 1 ''acc'' (running_world\<lparr>mgr := new_manager\<rparr>))
       = Inr (Some 4)"
    by code_simp
  show "fst (sync_start_stream ''acc'' ({}, mgr running_world)) = True"
    by (simp add: sync_start_stream_def split: prod.splits)
qed

section \<open>Properties of the stream task loop\<close>

lemma guarded_append:
  "guarded q (es @ fs) \<longleftrightarrow> guarded q es \<and> guarded (fold (\<lambda>e q. guard_step q e) es q) fs"
  by (induction es arbitrary: q) auto

lemma attach_and_watch_guarded:
  assumes "q = Clear \<or> q = Fresh (sdk_generation s) \<and> consecutive_failures s = 0 \<and> backoff s = 2"
    and "consecutive_failures s < 3"
    and "attach_and_watch it s = (s', ev)"
  shows "guarded q ev \<and> fold (\<lambda>e q. guard_step q e) ev q = guard_of s'"
  using assms
  by (auto simp: attach_and_watch_def detach_listener_def failure_with_backoff_def
      count_failure_def guard_of_def Let_def split: attach_outcome.splits watch_outcome.splits
      if_splits)

lemma run_iteration_guarded:
  assumes "run_iteration it s = (s', ev)"
  shows "guarded (guard_of s) ev \<and> fold (\<lambda>e q. guard_step q e) ev (guard_of s) = guard_of s'"
proof (cases "consecutive_failures s \<ge> 3")
  case False
  then have "attach_and_watch it s = (s', ev)" using assms by (simp add: run_iteration_def)
  from attach_and_watch_guarded [OF _ _ this, of Clear] False
  show ?thesis by (simp add: guard_of_def)
next
  case True
  show ?thesis
  proof (cases "connection_raises it")
    case True
    with \<open>consecutive_failures s \<ge> 3\<close> assms show ?thesis
      by (auto simp: run_iteration_def failure_with_backoff_def count_failure_def
          detach_listener_def guard_of_def Let_def)
  next
    case False
    let ?s2 = "(detach_listener s)\<lparr>sdk_generation := sdk_generation (detach_listener s) + 1,
                            consecutive_failures := 0, backoff := 2\<rparr>"
    obtain s3 ev3 where aw: "attach_and_watch it ?s2 = (s3, ev3)" by (cases "attach_and_watch it ?s2")
    with True False assms have res: "s' = s3" "ev = [Recreated (sdk_generation ?s2), Slept 2] @ ev3"
      by (simp_all add: run_iteration_def Let_def)
    from attach_and_watch_guarded [OF _ _ aw, of "Fresh (sdk_generation ?s2)"]
    have "guarded (Fresh (sdk_generation ?s2)) ev3
        \<and> fold (\<lambda>e q. guard_step q e) ev3 (Fresh (sdk_generation ?s2)) = guard_of s3"
      by simp
    then show ?thesis by (simp add: res)
  qed
qed

text \<open>
  Claim C5. In every run of the stream task loop: once the failure counter has reached
  3, no attach is attempted before the connection object has been built anew, and the
  first attach after the rebuild is made on the new connection with the failure counter
  at 0 and the backoff at its initial 2 seconds.
\<close>

theorem run_loop_guarded: "guarded Clear (snd (run_loop its initial_run_state))"
proof -
  have "guarded (guard_of s) (snd (run_loop its s))" for s
  proof (induction its arbitrary: s)
    case Nil
    show ?case by simp
  next
    case (Cons it its)
    obtain s1 ev1 where it: "run_iteration it s = (s1, ev1)" by (cases "run_iteration it s")
    obtain s2 ev2 where rest: "run_loop its s1 = (s2, ev2)" by (cases "run_loop its s1")
    from run_iteration_guarded [OF it] Cons [of s1] rest
    show ?case by (simp add: it guarded_append)
  qed
  from this [of initial_run_state] show ?thesis
    by (simp add: guard_of_def initial_run_state_def)
qed

theorem run_loop_guarded_witness:
  "snd (run_loop
     [\<lparr>connection_raises = False, attach_result = AttachTimeout, connected_in_time = False,
       watchdog = StopSet, jitter = 0.5\<rparr>,
      \<lparr>connection_raises = False, attach_result = AttachTimeout, connected_in_time = False,
       watchdog = StopSet, jitter = 0.5\<rparr>,
      \<lparr>connection_raises = False, attach_result = AttachRaises, connected_in_time = False,
       watchdog = StopSet, jitter = 0.5\<rparr>,
      \<lparr>connection_raises = False, attach_result = Attached ''listener'',
       connected_in_time = True, watchdog = StopSet, jitter = 0.5\<rparr>] initial_run_state)
   = [Attaching 2 0 0, Failed 1, Slept 2, Attaching 4 1 0, Failed 2, Slept 4,
      Attaching 8 2 0, Failed 3, Slept 8, Recreated 1, Slept 2, Attaching 2 0 1]
   \<and> guarded Clear
      [Attaching 2 0 0, Failed 1, Slept 2, Attaching 4 1 0, Failed 2, Slept 4,
       Attaching 8 2 0, Failed 3, Slept 8, Recreated 1, Slept 2, Attaching 2 0 1]
   \<and> \<not> guarded Clear [Attaching 8 2 0, Failed 3, Slept 8, Attaching 16 3 0]"
proof -
  let ?its = "[\<lparr>connection_raises = False, attach_result = AttachTimeout,
       connected_in_time = False, watchdog = StopSet, jitter = 0.5\<rparr>,
      \<lparr>connection_raises = False, attach_result = AttachTimeout, connected_in_time = False,
       watchdog = StopSet, jitter = 0.5\<rparr>,
      \<lparr>connection_raises = False, attach_result = AttachRaises, connected_in_time = False,
       watchdog = StopSet, jitter = 0.5\<rparr>,
      \<lparr>connection_raises = False, attach_result = Attached ''listener'',
       connected_in_time = True, watchdog = StopSet, jitter = 0.5\<rparr>]"
  have trace: "snd (run_loop ?its initial_run_state)
   = [Attaching 2 0 0, Failed 1, Slept 2, Attaching 4 1 0, Failed 2, Slept 4,
      Attaching 8 2 0, Failed 3, Slept 8, Recreated 1, Slept 2, Attaching 2 0 1]"
    by (simp add: run_iteration_def attach_and_watch_def failure_with_backoff_def
        count_failure_def detach_listener_def initial_run_state_def Let_def)
  have bad: "\<not> guarded Clear [Attaching 8 2 0, Failed 3, Slept 8, Attaching 16 3 0]"
    by simp
  from run_loop_guarded [of ?its] show ?thesis
    unfolding trace using bad by simp
qed

section \<open>Properties of the OHLC aggregator\<close>

lemma floor_minute_window:
  assumes "M mod minute = 0"
  shows "floor_minute ts = M \<longleftrightarrow> M \<le> ts \<and> ts < M + minute"
proof
  assume "floor_minute ts = M"
  then have "ts = M + ts mod minute" by (simp add: floor_minute_def)
  moreover have "0 \<le> ts mod minute" "ts mod minute < minute" by (simp_all add: minute_def)
  ultimately show "M \<le> ts \<and> ts < M + minute" by linarith
next
  assume w: "M \<le> ts \<and> ts < M + minute"
  from assms obtain q where q: "M = minute * q" by (auto simp: mod_eq_0_iff_dvd)
  have "ts mod minute = ((ts - M) + minute * q) mod minute" using q by simp
  also have "\<dots> = (ts - M) mod minute" by (rule mod_mult_self2)
  also have "\<dots> = ts - M" using w by simp
  finally have "ts mod minute = ts - M" .
  then show "floor_minute ts = M" by (simp add: floor_minute_def)
qed

lemma floor_minute_aligned: "floor_minute ts mod minute = 0"
  by (simp add: floor_minute_def minus_mod_eq_mult_div)


lemma set_update_cases:
  "(k', v') \<in> set (AList.update k v al) \<Longrightarrow> (k', v') = (k, v) \<or> (k', v') \<in> set al"
  by (induction al) (auto split: if_splits)

lemma set_delete_subset: "set (AList.delete k al) \<subseteq> set al"
  by (auto simp: AList.delete_eq)

lemma set_fold_delete_subset: "set (fold AList.delete ks al) \<subseteq> set al"
proof (induction ks arbitrary: al)
  case Nil
  show ?case by simp
next
  case (Cons k ks)
  have "set (fold AList.delete ks (AList.delete k al)) \<subseteq> set (AList.delete k al)"
    by (rule Cons.IH)
  also have "\<dots> \<subseteq> set al" by (rule set_delete_subset)
  finally show ?case by simp
qed

lemma distinct_fold_delete:
  "distinct (map fst al) \<Longrightarrow> distinct (map fst (fold AList.delete ks al))"
  by (induction ks arbitrary: al) (simp_all add: distinct_delete)

lemma map_of_fold_delete:
  "map_of (fold AList.delete ks al) k = (if k \<in> set ks then None else map_of al k)"
  by (induction ks arbitrary: al) (auto simp: delete_conv')

lemma well_keyed_Nil: "well_keyed []"
  by (simp add: well_keyed_def)

lemma well_keyed_lookup:
  "well_keyed bars \<Longrightarrow> map_of bars k = Some b \<Longrightarrow> bar_key b = k \<and> bar_time b mod minute = 0"
  by (auto simp: well_keyed_def dest: map_of_SomeD)

lemma well_keyed_update:
  assumes "well_keyed bars" and "bar_key b = k" and "bar_time b mod minute = 0"
  shows "well_keyed (AList.update k b bars)"
  unfolding well_keyed_def
proof (intro conjI ballI)
  show "distinct (map fst (AList.update k b bars))"
    using assms(1) by (simp add: well_keyed_def distinct_update)
  fix p assume "p \<in> set (AList.update k b bars)"
  then have "p = (k, b) \<or> p \<in> set bars"
    using set_update_cases [of "fst p" "snd p" k b bars] by auto
  then show "case p of (k, b) \<Rightarrow> bar_key b = k \<and> bar_time b mod minute = 0"
    using assms by (auto simp: well_keyed_def)
qed

lemma well_keyed_subset:
  assumes "well_keyed bars" and "set bars' \<subseteq> set bars" and "distinct (map fst bars')"
  shows "well_keyed bars'"
  using assms unfolding well_keyed_def by blast

lemma well_keyed_delete: "well_keyed bars \<Longrightarrow> well_keyed (AList.delete k bars)"
  by (rule well_keyed_subset [OF _ set_delete_subset])
     (simp_all add: well_keyed_def distinct_delete)

lemma ohlc_process_tick_eq:
  "ohlc_process_tick now a e ts bars =
     (if now - floor_minute ts \<ge> minute
      then (AList.delete (a, floor_minute ts)
              (AList.update (a, floor_minute ts) (tick_bucket a e ts bars) bars),
            Some (tick_bucket a e ts bars))
      else (AList.update (a, floor_minute ts) (tick_bucket a e ts bars) bars, None))"
  by (simp add: ohlc_process_tick_def tick_bucket_def Let_def update_conv' split: option.splits)

lemma tick_bucket_keyed:
  assumes "well_keyed bars"
  shows "bar_key (tick_bucket a e ts bars) = (a, floor_minute ts)
       \<and> bar_time (tick_bucket a e ts bars) mod minute = 0"
proof (cases "map_of bars (a, floor_minute ts)")
  case None
  then show ?thesis by (simp add: tick_bucket_def bar_key_def floor_minute_aligned)
next
  case (Some bar)
  from well_keyed_lookup [OF assms Some]
  show ?thesis using Some by (simp add: tick_bucket_def bar_key_def floor_minute_aligned)
qed

lemma well_keyed_process_tick:
  assumes "well_keyed bars"
  shows "well_keyed (fst (ohlc_process_tick now a e ts bars))"
proof -
  have u: "well_keyed (AList.update (a, floor_minute ts) (tick_bucket a e ts bars) bars)"
    using assms tick_bucket_keyed [OF assms] by (intro well_keyed_update) simp_all
  then show ?thesis by (simp add: ohlc_process_tick_eq well_keyed_delete)
qed

lemma well_keyed_flush:
  assumes "well_keyed bars"
  shows "well_keyed (fst (flush_completed_bars now bars))"
  unfolding flush_completed_bars_def Let_def fst_conv
  by (rule well_keyed_subset [OF assms set_fold_delete_subset])
     (use assms in \<open>simp add: well_keyed_def distinct_fold_delete\<close>)

lemma well_keyed_step:
  assumes "well_keyed bars"
  shows "well_keyed (fst (agg_step ev bars))"
proof (cases ev)
  case (Tick a e ts now)
  with well_keyed_process_tick [OF assms, of now a e ts] show ?thesis
    by (auto split: prod.splits option.splits)
next
  case (Sweep now)
  with well_keyed_flush [OF assms] show ?thesis by simp
qed

lemma window_bar_snoc:
  "window_bar a M (vs @ [e]) =
     Some (case window_bar a M vs of
             None \<Rightarrow> \<lparr>bar_metaapi_account_id = a, bar_time = M, bar_open = e,
                       bar_high = e, bar_low = e, bar_close = e\<rparr>
           | Some bar \<Rightarrow> bar\<lparr>bar_high := max (bar_high bar) e,
                              bar_low := min (bar_low bar) e, bar_close := e\<rparr>)"
proof (cases "vs = []")
  case True
  then show ?thesis by (simp add: window_bar_def)
next
  case False
  have hmax: "Max (set (vs @ [e])) = max (Max (set vs)) e"
    using False by (simp add: max.commute)
  have hmin: "Min (set (vs @ [e])) = min (Min (set vs)) e"
    using False by (simp add: min.commute)
  show ?thesis
    unfolding window_bar_def hmax hmin using False by simp
qed

lemma window_values_append:
  "window_values a M (evs @ evs') = window_values a M evs @ window_values a M evs'"
  by (induction a M evs rule: window_values.induct) auto

text \<open>One event on a dictionary whose bucket of minute \<open>M\<close> holds the window so far.\<close>

lemma agg_step_bucket:
  assumes wk: "well_keyed bars"
    and al: "M mod minute = 0"
    and bucket: "map_of bars (a, M) = window_bar a M vs"
  shows "(\<forall>b \<in> set (snd (agg_step ev bars)). bar_key b = (a, M) \<longrightarrow>
            Some b = window_bar a M (vs @ window_values a M [ev]))
       \<and> ((\<forall>b \<in> set (snd (agg_step ev bars)). bar_key b \<noteq> (a, M)) \<longrightarrow>
            map_of (fst (agg_step ev bars)) (a, M) = window_bar a M (vs @ window_values a M [ev]))"
proof (cases ev)
  case (Tick a' e ts now)
  let ?k = "(a', floor_minute ts)"
  let ?b = "tick_bucket a' e ts bars"
  have key: "bar_key ?b = ?k" using tick_bucket_keyed [OF wk] by blast
  have late: "agg_step ev bars = (AList.delete ?k (AList.update ?k ?b bars), [?b])"
    if "now - floor_minute ts \<ge> minute"
    using that Tick by (simp add: ohlc_process_tick_eq)
  have early: "agg_step ev bars = (AList.update ?k ?b bars, [])"
    if "\<not> now - floor_minute ts \<ge> minute"
    using that Tick by (simp add: ohlc_process_tick_eq)
  show ?thesis
  proof (cases "?k = (a, M)")
    case True
    then have win: "window_values a M [ev] = [e]"
      using Tick floor_minute_window [OF al, of ts] by auto
    from True have eqs: "a' = a" "floor_minute ts = M" by simp_all
    have b: "Some ?b = window_bar a M (vs @ [e])"
      unfolding tick_bucket_def eqs window_bar_snoc bucket by simp
    show ?thesis
    proof (cases "now - floor_minute ts \<ge> minute")
      case True
      show ?thesis unfolding late [OF True] win using b key \<open>?k = (a, M)\<close> by simp
    next
      case False
      show ?thesis unfolding early [OF False] win using b \<open>?k = (a, M)\<close>
        by (simp add: update_conv')
    qed
  next
    case False
    then have win: "window_values a M [ev] = []"
      using Tick floor_minute_window [OF al, of ts] by auto
    show ?thesis
    proof (cases "now - floor_minute ts \<ge> minute")
      case True
      show ?thesis unfolding late [OF True] win using bucket key \<open>?k \<noteq> (a, M)\<close>
        by (auto simp: update_conv' delete_conv')
    next
      case F: False
      show ?thesis unfolding early [OF F] win using bucket \<open>?k \<noteq> (a, M)\<close>
        by (auto simp: update_conv')
    qed
  qed
next
  case (Sweep now)
  let ?late = "\<lambda>(key :: string \<times> time, bar). now - bar_time bar \<ge> minute"
  have fl: "snd (agg_step ev bars) = map snd (filter ?late bars)"
    and st: "fst (agg_step ev bars) = fold AList.delete (map fst (filter ?late bars)) bars"
    using Sweep by (simp_all add: flush_completed_bars_def)
  have part1: "Some b = window_bar a M vs"
    if "b \<in> set (snd (agg_step ev bars))" "bar_key b = (a, M)" for b
  proof -
    from that(1) obtain k where kb: "(k, b) \<in> set bars" by (auto simp: fl)
    with wk have "bar_key b = k" by (auto simp: well_keyed_def)
    with that(2) kb have "((a, M), b) \<in> set bars" by simp
    with wk have "map_of bars (a, M) = Some b" by (simp add: well_keyed_def)
    with bucket show ?thesis by simp
  qed
  have part2: "map_of (fst (agg_step ev bars)) (a, M) = window_bar a M vs"
    if none: "\<forall>b \<in> set (snd (agg_step ev bars)). bar_key b \<noteq> (a, M)"
  proof -
    have "(a, M) \<notin> set (map fst (filter ?late bars))"
    proof
      assume "(a, M) \<in> set (map fst (filter ?late bars))"
      then obtain b where kb: "((a, M), b) \<in> set bars" and late: "now - bar_time b \<ge> minute"
        by auto
      then have "b \<in> set (snd (agg_step ev bars))" by (force simp: fl)
      moreover from wk kb have "bar_key b = (a, M)" by (auto simp: well_keyed_def)
      ultimately show False using none by blast
    qed
    then show ?thesis using bucket by (simp add: st map_of_fold_delete)
  qed
  show ?thesis using part1 part2 Sweep by simp
qed


lemma agg_run_bucket:
  assumes "well_keyed bars" and "M mod minute = 0"
    and "map_of bars (a, M) = window_bar a M vs"
    and "\<forall>b \<in> set (snd (agg_run evs bars)). bar_key b \<noteq> (a, M)"
  shows "map_of (fst (agg_run evs bars)) (a, M) = window_bar a M (vs @ window_values a M evs)
       \<and> well_keyed (fst (agg_run evs bars))"
  using assms
proof (induction evs arbitrary: bars vs)
  case Nil
  then show ?case by simp
next
  case (Cons ev evs)
  obtain bars1 fl1 where step: "agg_step ev bars = (bars1, fl1)" by (cases "agg_step ev bars")
  obtain bars2 fl2 where rest: "agg_run evs bars1 = (bars2, fl2)" by (cases "agg_run evs bars1")
  have run: "agg_run (ev # evs) bars = (bars2, fl1 @ fl2)"
    by (simp add: step rest)
  have none1: "\<forall>b \<in> set (snd (agg_step ev bars)). bar_key b \<noteq> (a, M)"
    and none2: "\<forall>b \<in> set (snd (agg_run evs bars1)). bar_key b \<noteq> (a, M)"
    using Cons.prems(4) by (simp_all add: run step rest)
  have wk1: "well_keyed bars1"
    using well_keyed_step [OF Cons.prems(1), of ev] by (simp add: step)
  have b1: "map_of bars1 (a, M) = window_bar a M (vs @ window_values a M [ev])"
    using agg_step_bucket [OF Cons.prems(1,2,3), of ev] none1 by (simp add: step)
  have "window_values a M (ev # evs) = window_values a M [ev] @ window_values a M evs"
    using window_values_append [of a M "[ev]" evs] by simp
  with Cons.IH [OF wk1 Cons.prems(2) b1 none2] show ?case
    unfolding run fst_conv by (simp add: rest)
qed

lemma agg_step_flushed_none:
  assumes wk: "well_keyed bars"
    and mem: "b \<in> set (snd (agg_step ev bars))"
    and key: "bar_key b = k"
  shows "map_of (fst (agg_step ev bars)) k = None"
proof (cases ev)
  case (Tick a' e ts now)
  have bk: "bar_key (tick_bucket a' e ts bars) = (a', floor_minute ts)"
    using tick_bucket_keyed [OF wk] by blast
  from mem Tick have late: "now - floor_minute ts \<ge> minute" and b: "b = tick_bucket a' e ts bars"
    by (auto simp: ohlc_process_tick_eq split: if_splits)
  from b bk key have "k = (a', floor_minute ts)" by simp
  then show ?thesis using Tick late by (simp add: ohlc_process_tick_eq delete_conv')
next
  case (Sweep now)
  let ?late = "\<lambda>(key :: string \<times> time, bar). now - bar_time bar \<ge> minute"
  from mem Sweep obtain k' where kb: "(k', b) \<in> set bars" and late: "now - bar_time b \<ge> minute"
    by (auto simp: flush_completed_bars_def)
  with wk key have "k' = k" by (auto simp: well_keyed_def)
  with kb late have "k \<in> set (map fst (filter ?late bars))" by force
  then show ?thesis using Sweep by (simp add: flush_completed_bars_def map_of_fold_delete)
qed

lemma segment_bucket:
  assumes "well_keyed bars" and "M mod minute = 0"
    and "map_of bars (a, M) = window_bar a M (window_values a M acc)"
  shows "map_of (fst (agg_run evs bars)) (a, M)
           = window_bar a M (window_values a M (segment a M evs bars acc))
       \<and> well_keyed (fst (agg_run evs bars))"
  using assms
proof (induction evs arbitrary: bars acc)
  case Nil
  then show ?case by simp
next
  case (Cons ev evs)
  obtain bars1 fl1 where step: "agg_step ev bars = (bars1, fl1)" by (cases "agg_step ev bars")
  obtain bars2 fl2 where rest: "agg_run evs bars1 = (bars2, fl2)" by (cases "agg_run evs bars1")
  have run: "fst (agg_run (ev # evs) bars) = fst (agg_run evs bars1)"
    by (simp add: step rest)
  have wk1: "well_keyed bars1"
    using well_keyed_step [OF Cons.prems(1), of ev] by (simp add: step)
  show ?case
  proof (cases "list_ex (\<lambda>b. bar_key b = (a, M)) fl1")
    case True
    then obtain b where "b \<in> set (snd (agg_step ev bars))" "bar_key b = (a, M)"
      by (auto simp: step list_ex_iff)
    from agg_step_flushed_none [OF Cons.prems(1) this]
    have b1: "map_of bars1 (a, M) = window_bar a M (window_values a M [])"
      by (simp add: step window_bar_def)
    have seg: "segment a M (ev # evs) bars acc = segment a M evs bars1 []"
      using True by (simp add: step)
    from Cons.IH [OF wk1 Cons.prems(2) b1] show ?thesis
      unfolding run seg .
  next
    case False
    then have none1: "\<forall>b \<in> set (snd (agg_step ev bars)). bar_key b \<noteq> (a, M)"
      by (auto simp: step list_ex_iff)
    have b1: "map_of bars1 (a, M) = window_bar a M (window_values a M (acc @ [ev]))"
      using agg_step_bucket [OF Cons.prems(1,2,3), of ev] none1
      by (simp add: step window_values_append)
    have seg: "segment a M (ev # evs) bars acc = segment a M evs bars1 (acc @ [ev])"
      using False by (simp add: step)
    from Cons.IH [OF wk1 Cons.prems(2) b1] show ?thesis
      unfolding run seg .
  qed
qed

lemma segment_suffix: "\<exists>pre. acc @ evs = pre @ segment a M evs bars acc"
proof (induction evs arbitrary: bars acc)
  case Nil
  show ?case by simp
next
  case (Cons ev evs)
  obtain bars1 fl1 where step: "agg_step ev bars = (bars1, fl1)" by (cases "agg_step ev bars")
  show ?case
  proof (cases "list_ex (\<lambda>b. bar_key b = (a, M)) fl1")
    case True
    from Cons.IH [of "[]" bars1] obtain pre where "evs = pre @ segment a M evs bars1 []"
      by auto
    then have "acc @ ev # evs = (acc @ ev # pre) @ segment a M evs bars1 []" by simp
    then have "\<exists>pre. acc @ ev # evs = pre @ segment a M evs bars1 []" by (rule exI)
    then show ?thesis using True by (simp add: step)
  next
    case False
    from Cons.IH [of "acc @ [ev]" bars1]
    show ?thesis using False by (simp add: step)
  qed
qed

lemma segment_unflushed:
  "\<forall>b \<in> set (snd (agg_run evs bars)). bar_key b \<noteq> (a, M) \<Longrightarrow>
   segment a M evs bars acc = acc @ evs"
proof (induction evs arbitrary: bars acc)
  case Nil
  show ?case by simp
next
  case (Cons ev evs)
  obtain bars1 fl1 where step: "agg_step ev bars = (bars1, fl1)" by (cases "agg_step ev bars")
  obtain bars2 fl2 where rest: "agg_run evs bars1 = (bars2, fl2)" by (cases "agg_run evs bars1")
  from Cons.prems have n1: "\<not> list_ex (\<lambda>b. bar_key b = (a, M)) fl1"
    and n2: "\<forall>b \<in> set (snd (agg_run evs bars1)). bar_key b \<noteq> (a, M)"
    by (auto simp: step rest list_ex_iff)
  from Cons.IH [OF n2, of "acc @ [ev]"] n1 show ?case by (simp add: step)
qed

lemma window_bar_close:
  "Some b = window_bar a M vs \<Longrightarrow> vs \<noteq> [] \<and> bar_close b = last vs"
  by (auto simp: window_bar_def split: if_splits)

text \<open>
  Claim C2, amended. For every sequence of ticks and sweeps on a new aggregator, in
  any order of arrival, a bar of account \<open>a\<close> and minute \<open>M\<close> that is handed to the
  flush has as close the value of the last tick processed so far with a timestamp in
  \<open>[M, M + 60 s)\<close>; its open is the value of the first, its high the maximum and its
  low the minimum of the values of the ticks of that window processed since a bar of
  that account and minute was last handed to the flush, and of all ticks of the window
  processed so far when no such bar was flushed before.
\<close>

theorem flushed_bar_covers_window:
  assumes "b \<in> set (flush_of prior ev)"
    and "bar_key b = (a, M)"
  shows "Some b = window_bar a M (window_values a M (since_flush a M prior @ [ev]))
       \<and> bar_close b = last (window_values a M (prior @ [ev]))
       \<and> ((\<forall>b' \<in> set (snd (agg_run prior [])). bar_key b' \<noteq> (a, M)) \<longrightarrow>
            Some b = window_bar a M (window_values a M (prior @ [ev])))"
proof -
  let ?bars = "fst (agg_run prior [])"
  have wk0: "well_keyed ?bars"
  proof -
    have "well_keyed bs \<Longrightarrow> well_keyed (fst (agg_run evs bs))" for evs bs
      by (induction evs arbitrary: bs)
         (auto simp: split_beta Let_def dest: well_keyed_step)
    then show ?thesis using well_keyed_Nil by blast
  qed
  have mem: "b \<in> set (snd (agg_step ev ?bars))" using assms(1) by (simp add: flush_of_def)
  have al: "M mod minute = 0"
  proof (cases ev)
    case (Tick a' e ts now)
    with mem have "b = tick_bucket a' e ts ?bars"
      by (auto simp: ohlc_process_tick_eq split: if_splits)
    with tick_bucket_keyed [OF wk0, of a' e ts] have "bar_time b mod minute = 0"
      by simp
    moreover have "bar_time b = M" using assms(2) by (simp add: bar_key_def)
    ultimately show ?thesis by simp
  next
    case (Sweep now)
    with mem obtain k where "(k, b) \<in> set ?bars"
      by (auto simp: flush_completed_bars_def)
    with wk0 have "bar_time b mod minute = 0" by (auto simp: well_keyed_def)
    moreover have "bar_time b = M" using assms(2) by (simp add: bar_key_def)
    ultimately show ?thesis by simp
  qed
  have empty: "map_of [] (a, M) = window_bar a M (window_values a M [])"
    by (simp add: window_bar_def)
  from segment_bucket [OF well_keyed_Nil al empty, of prior]
  have bucket: "map_of ?bars (a, M) = window_bar a M (window_values a M (since_flush a M prior))"
    by (simp add: since_flush_def)
  from agg_step_bucket [OF wk0 al bucket, of ev] mem assms(2)
  have seg: "Some b = window_bar a M (window_values a M (since_flush a M prior @ [ev]))"
    by (simp add: window_values_append)
  from segment_suffix [of "[]" prior a M "[]"]
  obtain pre where pre: "prior = pre @ since_flush a M prior"
    by (auto simp: since_flush_def)
  have "window_values a M (prior @ [ev])
      = window_values a M pre @ window_values a M (since_flush a M prior @ [ev])"
    using pre window_values_append [of a M pre "since_flush a M prior @ [ev]"]
    by (metis append_assoc)
  moreover from window_bar_close [OF seg]
  have "window_values a M (since_flush a M prior @ [ev]) \<noteq> []"
    and "bar_close b = last (window_values a M (since_flush a M prior @ [ev]))"
    by simp_all
  ultimately have close: "bar_close b = last (window_values a M (prior @ [ev]))"
    by simp
  have whole: "(\<forall>b' \<in> set (snd (agg_run prior [])). bar_key b' \<noteq> (a, M)) \<longrightarrow>
            Some b = window_bar a M (window_values a M (prior @ [ev]))"
  proof
    assume "\<forall>b' \<in> set (snd (agg_run prior [])). bar_key b' \<noteq> (a, M)"
    from segment_unflushed [OF this, of "[]"] have "since_flush a M prior = prior"
      by (simp add: since_flush_def)
    with seg show "Some b = window_bar a M (window_values a M (prior @ [ev]))" by simp
  qed
  show ?thesis using seg close whole by blast
qed

text \<open>
  Claim C2 as stated fails once a minute is flushed twice. A tick is stamped at 59.9 s
  and reaches the aggregator at 60.2 s; the sweep at 60.0 s has flushed and removed the
  bucket of the minute, which held a tick of value 100. The late tick opens a new
  bucket, which is flushed at once with open 105 and low 105, where the window has
  open 100 and low 100. The same happens with two late ticks of one minute and no
  sweep.
\<close>

theorem flush_covers_window_counterexample:
  "flush_of [Tick ''acc'' 100 10000000 10050000, Sweep 60000000]
       (Tick ''acc'' 105 59900000 60200000)
     = [\<lparr>bar_metaapi_account_id = ''acc'', bar_time = 0, bar_open = 105, bar_high = 105,
         bar_low = 105, bar_close = 105\<rparr>]
   \<and> window_bar ''acc'' 0 (window_values ''acc'' 0
        ([Tick ''acc'' 100 10000000 10050000, Sweep 60000000]
          @ [Tick ''acc'' 105 59900000 60200000]))
     = Some \<lparr>bar_metaapi_account_id = ''acc'', bar_time = 0, bar_open = 100, bar_high = 105,
         bar_low = 100, bar_close = 105\<rparr>
   \<and> \<not> flush_covers_window [Tick ''acc'' 100 10000000 10050000, Sweep 60000000]
         (Tick ''acc'' 105 59900000 60200000)
   \<and> \<not> flush_covers_window [Tick ''acc'' 100 59900000 60100000]
         (Tick ''acc'' 105 59950000 60200000)"
  by code_simp

theorem flushed_bar_covers_window_witness:
  "flush_of [Tick ''acc'' 100 10000000 10050000, Tick ''acc'' 105 20000000 20050000,
             Tick ''acc'' 95 30000000 30050000]
       (Tick ''acc'' 102 59900000 60200000)
     = [\<lparr>bar_metaapi_account_id = ''acc'', bar_time = 0, bar_open = 100, bar_high = 105,
         bar_low = 95, bar_close = 102\<rparr>]
   \<and> window_bar ''acc'' 0 (window_values ''acc'' 0
        ([Tick ''acc'' 100 10000000 10050000, Tick ''acc'' 105 20000000 20050000,
          Tick ''acc'' 95 30000000 30050000] @ [Tick ''acc'' 102 59900000 60200000]))
     = Some \<lparr>bar_metaapi_account_id = ''acc'', bar_time = 0, bar_open = 100, bar_high = 105,
         bar_low = 95, bar_close = 102\<rparr>
   \<and> flush_of [Tick ''acc'' 100 10000000 10050000, Tick ''acc'' 105 20000000 20050000,
               Sweep 60000000, Tick ''acc'' 95 59800000 60100000]
       (Tick ''acc'' 102 59900000 60200000)
     = [\<lparr>bar_metaapi_account_id = ''acc'', bar_time = 0, bar_open = 102, bar_high = 102,
         bar_low = 102, bar_close = 102\<rparr>]
   \<and> since_flush ''acc'' 0 [Tick ''acc'' 100 10000000 10050000,
         Tick ''acc'' 105 20000000 20050000, Sweep 60000000,
         Tick ''acc'' 95 59800000 60100000] = []
   \<and> last (window_values ''acc'' 0
        ([Tick ''acc'' 100 10000000 10050000, Tick ''acc'' 105 20000000 20050000,
          Sweep 60000000, Tick ''acc'' 95 59800000 60100000]
         @ [Tick ''acc'' 102 59900000 60200000])) = 102"
proof -
  let ?prior = "[Tick ''acc'' 100 10000000 10050000, Tick ''acc'' 105 20000000 20050000,
             Tick ''acc'' 95 30000000 30050000]"
  let ?again = "[Tick ''acc'' 100 10000000 10050000, Tick ''acc'' 105 20000000 20050000,
               Sweep 60000000, Tick ''acc'' 95 59800000 60100000]"
  let ?ev = "Tick ''acc'' 102 59900000 60200000"
  let ?bar = "\<lparr>bar_metaapi_account_id = ''acc'', bar_time = 0, bar_open = 100, bar_high = 105,
         bar_low = 95, bar_close = 102\<rparr>"
  let ?late = "\<lparr>bar_metaapi_account_id = ''acc'', bar_time = 0, bar_open = 102, bar_high = 102,
         bar_low = 102, bar_close = 102\<rparr>"
  have quiet: "snd (agg_run ?prior []) = []" by code_simp
  have fl: "flush_of ?prior ?ev = [?bar]" by code_simp
  have none: "\<forall>b' \<in> set (snd (agg_run ?prior [])). bar_key b' \<noteq> (''acc'', 0)"
    unfolding quiet by simp
  have mem: "?bar \<in> set (flush_of ?prior ?ev)" unfolding fl by simp
  have key: "bar_key ?bar = (''acc'', 0)" by (simp add: bar_key_def)
  have fl2: "flush_of ?again ?ev = [?late]" by code_simp
  have mem2: "?late \<in> set (flush_of ?again ?ev)" unfolding fl2 by simp
  have key2: "bar_key ?late = (''acc'', 0)" by (simp add: bar_key_def)
  have since: "since_flush ''acc'' 0 ?again = []" by code_simp
  from flushed_bar_covers_window [OF mem key] none
  have first: "Some ?bar = window_bar ''acc'' 0 (window_values ''acc'' 0 (?prior @ [?ev]))"
    by blast
  from flushed_bar_covers_window [OF mem2 key2]
  have second: "last (window_values ''acc'' 0 (?again @ [?ev])) = 102"
    by simp
  show ?thesis using fl first fl2 since second by simp
qed

end
